theory Spec2Isabelle
  imports Complex_Main
begin

section \<open>Text and numbers of the host language\<close>

text \<open>
  Text is kept in UTF-8, one \<open>char\<close> per byte: an ASCII character is its own byte. The
  two line terminators are single bytes and occur in no multi-byte sequence, so that
  removing one from a text and from its bytes is the same operation. The host counts
  the length of a string in UTF-16 code units: one unit for a character of one, two or
  three bytes, two units for a character of four bytes.
\<close>

definition LF :: char where
  "LF = CHR 0x0A"

definition CR :: char where
  "CR = CHR 0x0D"

definition byte :: "char \<Rightarrow> nat" where
  "byte c = of_char c"

definition code_units :: "string \<Rightarrow> nat" where
  "code_units t =
     sum_list (map (\<lambda>c. if byte c < 0x80 then 1 else if byte c < 0xC0 then 0
                         else if byte c < 0xF0 then 1 else 2) t)"

text \<open>
  A number is a double: a finite value, kept as the rational it is (the two zeros are
  one value, which no operation of the program tells apart), NaN or an infinity.
\<close>

datatype number = Finite rat | NaN | PosInfinity | NegInfinity

fun truthy_number :: "number \<Rightarrow> bool" where
  "truthy_number (Finite q) = (q \<noteq> 0)"
| "truthy_number NaN = False"
| "truthy_number PosInfinity = True"
| "truthy_number NegInfinity = True"

text \<open>
  What the program needs of its host and does not define: the greatest length of a
  string (\<open>String::kMaxLength\<close> of the engine, in code units), and the text that
  \<open>String(n)\<close> gives to a finite number that is not a safe integer, which is the work of
  the engine's shortest-digits printer.
\<close>

record Host =
  String_kMaxLength :: int
  Number_toString_inexact :: "rat \<Rightarrow> string"

text \<open>
  \<open>String(n)\<close>. An integer of magnitude up to \<open>2^53\<close> is printed with all its decimal
  digits, and a minus sign when negative; so are an array index and
  \<open>options.length - 1\<close>.
\<close>

definition digit_char :: "nat \<Rightarrow> char" where
  "digit_char d = char_of (48 + d)"

fun String_nat :: "nat \<Rightarrow> string" where
  "String_nat n =
     (if n < 10 then [digit_char n]
      else String_nat (n div 10) @ [digit_char (n mod 10)])"

declare String_nat.simps [simp del]

definition String_int :: "int \<Rightarrow> string" where
  "String_int i =
     (if i < 0 then CHR ''-'' # String_nat (nat (- i)) else String_nat (nat i))"

definition safe_integer :: "rat \<Rightarrow> bool" where
  "safe_integer q = (q = of_int \<lfloor>q\<rfloor> \<and> \<bar>q\<bar> \<le> 2 ^ 53)"

definition Number_toString :: "Host \<Rightarrow> number \<Rightarrow> string" where
  "Number_toString h n =
     (case n of
        Finite q \<Rightarrow>
          if safe_integer q then String_int \<lfloor>q\<rfloor> else Number_toString_inexact h q
      | NaN \<Rightarrow> ''NaN''
      | PosInfinity \<Rightarrow> ''Infinity''
      | NegInfinity \<Rightarrow> ''-Infinity'')"

text \<open>
  A template literal or a concatenation: the parts joined, or a range error when the
  result would be longer than the host allows.
\<close>

datatype error = EndOfInput | RangeError | CastMismatch

definition template :: "Host \<Rightarrow> string list \<Rightarrow> error + string" where
  "template h parts =
     (if String_kMaxLength h < int (code_units (concat parts)) then Inl RangeError
      else Inr (concat parts))"

text \<open>
  \<open>text.repeat(count)\<close>: the count is truncated toward zero (NaN counts as zero); a
  count that is negative or infinite after that raises a range error, and so does a
  result longer than the host allows.
\<close>

definition trunc :: "rat \<Rightarrow> int" where
  "trunc q = (if 0 \<le> q then \<lfloor>q\<rfloor> else - \<lfloor>- q\<rfloor>)"

definition String_repeat :: "Host \<Rightarrow> string \<Rightarrow> number \<Rightarrow> error + string" where
  "String_repeat h t count =
     (case count of
        Finite q \<Rightarrow>
          if trunc q < 0 then Inl RangeError
          else if String_kMaxLength h < trunc q * int (code_units t) then Inl RangeError
          else Inr (concat (replicate (nat (trunc q)) t))
      | NaN \<Rightarrow> Inr []
      | PosInfinity \<Rightarrow> Inl RangeError
      | NegInfinity \<Rightarrow> Inl RangeError)"

text \<open>
  \<open>value.replace(pattern, replacement)\<close> with a string pattern replaces the first
  occurrence only. Both patterns of the program are one character long.
\<close>

fun replace :: "char \<Rightarrow> string \<Rightarrow> string \<Rightarrow> string" where
  "replace p r [] = []"
| "replace p r (c # cs) = (if c = p then r @ cs else c # replace p r cs)"

text \<open>
  \<open>new TextDecoder().decode(bytes)\<close>: the UTF-8 decoder of the platform, not fatal.
  Bytes are read one at a time; a lead byte opens a sequence of one to three further
  bytes, whose first has bounds that depend on the lead (this excludes overlong forms,
  surrogates and values past U+10FFFF). A byte that cannot continue the open sequence
  ends it with the replacement character U+FFFD and is read again as the start of a
  new one; a byte that cannot start a sequence gives U+FFFD; input that ends inside a
  sequence gives U+FFFD. A byte-order mark at the start is dropped. A decoded character
  is kept as the bytes it came from, U+FFFD as its three bytes.
\<close>

record utf8_state =
  needed :: nat
  seen :: nat
  lower :: nat
  upper :: nat
  pending :: string

definition utf8_idle :: utf8_state where
  "utf8_idle = \<lparr>needed = 0, seen = 0, lower = 0x80, upper = 0xBF, pending = []\<rparr>"

definition U_FFFD :: string where
  "U_FFFD = [CHR 0xEF, CHR 0xBF, CHR 0xBD]"

definition utf8_start :: "char \<Rightarrow> string \<times> utf8_state" where
  "utf8_start b =
     (if byte b \<le> 0x7F then ([b], utf8_idle)
      else if 0xC2 \<le> byte b \<and> byte b \<le> 0xDF
      then ([], \<lparr>needed = 1, seen = 0, lower = 0x80, upper = 0xBF, pending = [b]\<rparr>)
      else if 0xE0 \<le> byte b \<and> byte b \<le> 0xEF
      then ([], \<lparr>needed = 2, seen = 0,
                 lower = (if byte b = 0xE0 then 0xA0 else 0x80),
                 upper = (if byte b = 0xED then 0x9F else 0xBF), pending = [b]\<rparr>)
      else if 0xF0 \<le> byte b \<and> byte b \<le> 0xF4
      then ([], \<lparr>needed = 3, seen = 0,
                 lower = (if byte b = 0xF0 then 0x90 else 0x80),
                 upper = (if byte b = 0xF4 then 0x8F else 0xBF), pending = [b]\<rparr>)
      else (U_FFFD, utf8_idle))"

definition utf8_step :: "utf8_state \<Rightarrow> char \<Rightarrow> string \<times> utf8_state" where
  "utf8_step st b =
     (if needed st = 0 then utf8_start b
      else if byte b < lower st \<or> upper st < byte b
      then (U_FFFD @ fst (utf8_start b), snd (utf8_start b))
      else if seen st + 1 = needed st then (pending st @ [b], utf8_idle)
      else ([], st\<lparr>seen := seen st + 1, lower := 0x80, upper := 0xBF,
                     pending := pending st @ [b]\<rparr>))"

fun utf8_run :: "utf8_state \<Rightarrow> string \<Rightarrow> string" where
  "utf8_run st [] = (if needed st \<noteq> 0 then U_FFFD else [])"
| "utf8_run st (b # bs) = fst (utf8_step st b) @ utf8_run (snd (utf8_step st b)) bs"

definition strip_BOM :: "string \<Rightarrow> string" where
  "strip_BOM bytes =
     (if take 3 bytes = [CHR 0xEF, CHR 0xBB, CHR 0xBF] then drop 3 bytes else bytes)"

definition TextDecoder_decode :: "string \<Rightarrow> string" where
  "TextDecoder_decode bytes = utf8_run utf8_idle (strip_BOM bytes)"

text \<open>The type \<open>string | number\<close> of an auto-supplied answer, and its truthiness.\<close>

datatype str_or_num = Str string | Num number

fun truthy :: "str_or_num \<Rightarrow> bool" where
  "truthy (Str s) = (s \<noteq> [])"
| "truthy (Num n) = truthy_number n"

text \<open>The operator \<open>a ?? b\<close>.\<close>

definition nullish :: "'a option \<Rightarrow> 'a \<Rightarrow> 'a" where
  "nullish a b = (case a of None \<Rightarrow> b | Some v \<Rightarrow> v)"

section \<open>Types of the library\<close>

text \<open>
  Modelled from the spec: \<open>types.ts\<close> is not among the sources. \<open>ACTIONS\<close> is the
  kind of a recorded prompt (the spec's two variants of a prompt record); both members
  are truthy values, as the spec's account of \<open>repeat\<close> requires. \<open>Preferences\<close> has
  the fields that \<open>choose\<close> destructures, each optional.
\<close>

datatype ACTIONS = CHOOSE | QUESTION

record Preferences =
  choice :: "str_or_num option"
  lastOptionClose :: "bool option"
  displayInline :: "bool option"
  inlineSpacing :: "number option"
  inlineSeparator :: "string option"
  indexStyle :: "string list option"
  dividerTop :: "bool option"
  dividerBottom :: "bool option"
  dividerChar :: "string option"
  dividerLength :: "number option"
  dividerPadding :: "bool option"

definition no_preferences :: Preferences where
  "no_preferences =
     \<lparr>choice = None, lastOptionClose = None, displayInline = None, inlineSpacing = None,
      inlineSeparator = None, indexStyle = None, dividerTop = None, dividerBottom = None,
      dividerChar = None, dividerLength = None, dividerPadding = None\<rparr>"

text \<open>
  Modelled from the spec: \<open>history.ts\<close> is not among the sources. The history holds the
  single most recent prompt: \<open>save\<close> overwrites the stored record with its four
  arguments, \<open>retrieve\<close> returns the stored record, which is empty before the first
  \<open>save\<close>. The argument is an option list (of a choose prompt) or a text (of a question).
\<close>

datatype prompt_argument = Options "string list" | Text string

record History =
  h_argument :: "prompt_argument option"
  h_action :: "ACTIONS option"
  h_lastOptionClose :: "bool option"
  h_includeNewline :: "bool option"

definition History_new :: History where
  "History_new =
     \<lparr>h_argument = None, h_action = None, h_lastOptionClose = None,
      h_includeNewline = None\<rparr>"

definition History_save ::
  "prompt_argument \<Rightarrow> ACTIONS \<Rightarrow> bool option \<Rightarrow> bool option \<Rightarrow> History \<Rightarrow> History" where
  "History_save arg act loc nl h =
     \<lparr>h_argument = Some arg, h_action = Some act, h_lastOptionClose = loc,
      h_includeNewline = nl\<rparr>"

definition History_retrieve :: "History \<Rightarrow> History" where
  "History_retrieve h = h"

text \<open>
  Modelled from the spec: \<open>printer.ts\<close> is not among the sources. The printer writes
  to standard output and cannot fail; what it writes for a call is its own business, so
  the output is kept as the sequence of calls made to it, in call order.
\<close>

datatype out_call =
  Print string "bool option"
| Newline
| Divider "number option" "string option"

section \<open>The input loop\<close>

text \<open>
  The fields of the object (\<open>buf\<close>, \<open>done\<close>, \<open>out\<close>, \<open>history\<close>) and what surrounds
  it: the host, and the standard input of the process, which is the data still to come,
  one element per piece the operating system hands over. The empty list is the closed
  stream.
\<close>

record InputLoop =
  buf :: string
  done_flag :: bool
  out :: "out_call list"
  history :: History
  stdin :: "string list"
  host :: Host

text \<open>
  The constructor. Its configuration goes to the printer, whose calls are all that is
  kept of the output, so it is not a parameter here; the parameters are the host and
  what standard input will deliver.
\<close>

definition InputLoop_new :: "Host \<Rightarrow> string list \<Rightarrow> InputLoop" where
  "InputLoop_new h input =
     \<lparr>buf = replicate 1024 (CHR 0x00), done_flag = False, out = [],
      history = History_new, stdin = input, host = h\<rparr>"

definition out_print :: "string \<Rightarrow> bool option \<Rightarrow> InputLoop \<Rightarrow> InputLoop" where
  "out_print text nl s = s\<lparr>out := out s @ [Print text nl]\<rparr>"

definition out_newline :: "InputLoop \<Rightarrow> InputLoop" where
  "out_newline s = s\<lparr>out := out s @ [Newline]\<rparr>"

definition out_divider :: "number option \<Rightarrow> string option \<Rightarrow> InputLoop \<Rightarrow> InputLoop" where
  "out_divider len c s = s\<lparr>out := out s @ [Divider len c]\<rparr>"

definition history_save ::
  "prompt_argument \<Rightarrow> ACTIONS \<Rightarrow> bool option \<Rightarrow> bool option \<Rightarrow> InputLoop \<Rightarrow> InputLoop" where
  "history_save arg act loc nl s = s\<lparr>history := History_save arg act loc nl (history s)\<rparr>"

text \<open>\<open>coerceChoice\<close> (lines 15 to 20) and \<open>cleanInput\<close> (lines 26 to 28).\<close>

definition coerceChoice :: "Host \<Rightarrow> str_or_num \<Rightarrow> string" where
  "coerceChoice h v = (case v of Num n \<Rightarrow> Number_toString h n | Str s \<Rightarrow> s)"

definition cleanInput :: "string option \<Rightarrow> string" where
  "cleanInput v =
     (case v of None \<Rightarrow> [] | Some t \<Rightarrow> replace CR [] (replace LF [] t))"

text \<open>
  \<open>Deno.stdin.read(this.buf)\<close>: at the end of the stream the answer is null and the
  buffer is left alone; otherwise the next piece of input, at most as much of it as
  the buffer holds, is copied to the front of the buffer and its length is the answer.
  A piece may be empty (a read of zero bytes).
\<close>

definition stdin_read :: "InputLoop \<Rightarrow> nat option \<times> InputLoop" where
  "stdin_read s =
     (case stdin s of
        [] \<Rightarrow> (None, s)
      | c # cs \<Rightarrow>
          (let got = take (length (buf s)) c;
               rest = drop (length (buf s)) c
           in (Some (length got),
               s\<lparr>buf := got @ drop (length got) (buf s),
                 stdin := (if rest = [] then cs else rest # cs)\<rparr>)))"

text \<open>
  \<open>read\<close> (lines 56 to 66) settles once: it resolves with the cleaned text of the
  bytes read, or rejects, with no reason given, when the read gave null or zero bytes.
\<close>

definition read :: "InputLoop \<Rightarrow> (error + string) \<times> InputLoop" where
  "read s =
     (case stdin_read s of
        (Some n, s') \<Rightarrow>
          (if n \<noteq> 0 then (Inr (cleanInput (Some (TextDecoder_decode (take n (buf s'))))), s')
           else (Inl EndOfInput, s'))
      | (None, s') \<Rightarrow> (Inl EndOfInput, s'))"

text \<open>\<open>close\<close> (lines 168 to 170).\<close>

definition close :: "InputLoop \<Rightarrow> InputLoop" where
  "close s = s\<lparr>done_flag := True\<rparr>"

text \<open>Truthiness tests and the \<open>||\<close> defaults that \<open>choose\<close> applies to its preferences.\<close>

definition truthy_bool :: "bool option \<Rightarrow> bool" where
  "truthy_bool b = (b = Some True)"

definition truthy_string :: "string option \<Rightarrow> bool" where
  "truthy_string t = (case t of None \<Rightarrow> False | Some v \<Rightarrow> v \<noteq> [])"

definition string_or_undefined :: "string option \<Rightarrow> string option" where
  "string_or_undefined t = (if truthy_string t then t else None)"

definition number_or_undefined :: "number option \<Rightarrow> number option" where
  "number_or_undefined n =
     (case n of None \<Rightarrow> None | Some v \<Rightarrow> if truthy_number v then Some v else None)"

definition number_or :: "number option \<Rightarrow> number \<Rightarrow> number" where
  "number_or n d = (case n of None \<Rightarrow> d | Some v \<Rightarrow> if truthy_number v then v else d)"

text \<open>
  \<open>xs[i]\<close> inside a template literal: an index outside the array gives undefined,
  which the template prints as the word.
\<close>

definition element_text :: "string list \<Rightarrow> nat \<Rightarrow> string" where
  "element_text xs i = (if i < length xs then xs ! i else ''undefined'')"

text \<open>The separator of line 107.\<close>

definition separator_of :: "Host \<Rightarrow> Preferences \<Rightarrow> error + string" where
  "separator_of h preferences =
     (if truthy_string (inlineSeparator preferences)
      then template h ['' '', nullish (inlineSeparator preferences) [], '' '']
      else String_repeat h '' '' (number_or (inlineSpacing preferences) (Finite 2)))"

text \<open>
  The menu: the blank line, top divider and padding of lines 100 to 104, one option
  per call of the \<open>forEach\<close> of lines 110 to 113 (with the index style of lines 91 to
  97), and the bottom divider of lines 116 to 120. The text of an option is built before
  it is printed, so a text too long for the host stops the loop with what was printed
  so far.
\<close>

definition render_top :: "Preferences \<Rightarrow> InputLoop \<Rightarrow> InputLoop" where
  "render_top preferences s0 =
     (let s1 = out_newline s0;
          s2 = (if truthy_bool (dividerTop preferences)
                then out_divider (number_or_undefined (dividerLength preferences))
                       (string_or_undefined (dividerChar preferences)) s1
                else s1)
      in if truthy_bool (dividerPadding preferences) then out_newline s2 else s2)"

definition option_text :: "Host \<Rightarrow> Preferences \<Rightarrow> string \<Rightarrow> nat \<times> string \<Rightarrow> error + string" where
  "option_text h preferences separator io =
     (let indexStyleLeft =
            (case indexStyle preferences of None \<Rightarrow> ''['' | Some st \<Rightarrow> element_text st 0);
          indexStyleRight =
            (case indexStyle preferences of None \<Rightarrow> '']'' | Some st \<Rightarrow> element_text st 1);
          index = fst io;
          option = snd io
      in if truthy_bool (displayInline preferences)
         then template h
                [indexStyleLeft, String_nat index, indexStyleRight, '' '', option, separator]
         else template h [indexStyleLeft, String_nat index, indexStyleRight, '' '', option])"

definition render_option ::
  "Preferences \<Rightarrow> string \<Rightarrow> InputLoop \<Rightarrow> nat \<times> string \<Rightarrow> error option \<times> InputLoop" where
  "render_option preferences separator s io =
     (case option_text (host s) preferences separator io of
        Inl e \<Rightarrow> (Some e, s)
      | Inr line \<Rightarrow>
          (None,
           if truthy_bool (displayInline preferences) then out_print line None s
           else out_print line (Some True) s))"

fun render_options ::
  "Preferences \<Rightarrow> string \<Rightarrow> InputLoop \<Rightarrow> (nat \<times> string) list \<Rightarrow> error option \<times> InputLoop" where
  "render_options preferences separator s [] = (None, s)"
| "render_options preferences separator s (io # ios) =
     (case render_option preferences separator s io of
        (Some e, s') \<Rightarrow> (Some e, s')
      | (None, s') \<Rightarrow> render_options preferences separator s' ios)"

definition render_bottom :: "Preferences \<Rightarrow> InputLoop \<Rightarrow> InputLoop" where
  "render_bottom preferences s0 =
     (if truthy_bool (dividerBottom preferences)
      then (let s1 = out_newline s0;
                s2 = (if truthy_bool (dividerPadding preferences) then out_newline s1 else s1)
            in out_divider (number_or_undefined (dividerLength preferences))
                 (string_or_undefined (dividerChar preferences)) s2)
      else s0)"

text \<open>Lines 125 to 130 of \<open>choose\<close>: the answer is the supplied choice, or is read.\<close>

definition obtain_result :: "Preferences \<Rightarrow> InputLoop \<Rightarrow> (error + string) \<times> InputLoop" where
  "obtain_result preferences s =
     (case choice preferences of
        Some c \<Rightarrow> (Inr (cleanInput (Some (coerceChoice (host s) c))), s)
      | None \<Rightarrow> read s)"

text \<open>
  \<open>choose\<close> (lines 75 to 144) is written \<open>choose_prompt\<close>: the plain name is the
  binomial operator of HOL. The function is asynchronous, so an exception raised in its
  body, as by the separator or by the text of an option, is a rejection of its promise;
  what was written before stays written.
\<close>

definition choose_prompt ::
  "string list \<Rightarrow> Preferences \<Rightarrow> InputLoop \<Rightarrow> (error + bool list) \<times> InputLoop" where
  "choose_prompt options preferences s0 =
     (let s1 = render_top preferences s0
      in case separator_of (host s1) preferences of
           Inl e \<Rightarrow> (Inl e, s1)
         | Inr separator \<Rightarrow>
             (case render_options preferences separator s1 (enumerate 0 options) of
                (Some e, s2) \<Rightarrow> (Inl e, s2)
              | (None, s2) \<Rightarrow>
                  (let s3 = render_bottom preferences s2
                   in case obtain_result preferences s3 of
                        (Inl e, s4) \<Rightarrow> (Inl e, s4)
                      | (Inr result, s4) \<Rightarrow>
                          (let s5 = history_save (Options options) CHOOSE
                                      (Some (nullish (lastOptionClose preferences) False))
                                      None s4;
                               s6 = (if truthy_bool (lastOptionClose preferences)
                                        \<and> result = String_int (int (length options) - 1)
                                     then close s5 else s5)
                           in (Inr (map (\<lambda>io. if result = String_nat (fst io) then True
                                                else False)
                                      (enumerate 0 options)),
                               s6)))))"

text \<open>
  \<open>question\<close> (lines 153 to 163). The prompt is recorded before the answer is
  obtained, and the supplied value is used when it is truthy.
\<close>

definition question ::
  "string \<Rightarrow> bool option \<Rightarrow> str_or_num option \<Rightarrow> InputLoop
     \<Rightarrow> (error + string) \<times> InputLoop" where
  "question text includeNewline v s0 =
     (let s1 = out_print text (Some (nullish includeNewline True)) s0;
          s2 = history_save (Text text) QUESTION None (Some (nullish includeNewline True)) s1
      in case v of
           Some w \<Rightarrow>
             (if truthy w then (Inr (cleanInput (Some (coerceChoice (host s2) w))), s2)
              else read s2)
         | None \<Rightarrow> read s2)"

text \<open>
  \<open>repeat\<close> (lines 34 to 50) returns the promise of \<open>choose\<close> or of \<open>question\<close>, or
  undefined. The two \<open>as\<close> casts of the stored argument are unchecked in the source; the
  model makes them explicit and stops with \<open>CastMismatch\<close> where the stored argument is
  not of the asserted type, which no state built by the operations below allows
  (see \<open>InputLoop_inv\<close>).
\<close>

datatype repeat_result = Selected "bool list" | Answer string | Undefined

definition action_truthy :: "ACTIONS option \<Rightarrow> bool" where
  "action_truthy a = (case a of None \<Rightarrow> False | Some k \<Rightarrow> True)"

definition settle ::
  "('a \<Rightarrow> repeat_result) \<Rightarrow> (error + 'a) \<times> InputLoop \<Rightarrow> (error + repeat_result) \<times> InputLoop" where
  "settle f p = (case fst p of Inl e \<Rightarrow> (Inl e, snd p) | Inr r \<Rightarrow> (Inr (f r), snd p))"

definition repeat :: "str_or_num option \<Rightarrow> InputLoop \<Rightarrow> (error + repeat_result) \<times> InputLoop" where
  "repeat v s =
     (if action_truthy (h_action (History_retrieve (history s))) then
        (if h_action (History_retrieve (history s)) = Some CHOOSE then
           (case h_argument (History_retrieve (history s)) of
              Some (Options opts) \<Rightarrow>
                settle Selected
                  (choose_prompt opts
                     (no_preferences
                        \<lparr>lastOptionClose := h_lastOptionClose (History_retrieve (history s)),
                         choice := v\<rparr>) s)
            | _ \<Rightarrow> (Inl CastMismatch, s))
         else if h_action (History_retrieve (history s)) = Some QUESTION then
           (case h_argument (History_retrieve (history s)) of
              Some (Text t) \<Rightarrow>
                settle Answer
                  (question t (h_includeNewline (History_retrieve (history s))) v s)
            | _ \<Rightarrow> (Inl CastMismatch, s))
         else (Inr Undefined, s))
      else (Inr Undefined, s))"

text \<open>
  The invariant of the object: the buffer keeps its 1024 bytes, and the stored argument
  is of the type that the stored action asserts.
\<close>

fun argument_fits :: "ACTIONS option \<Rightarrow> prompt_argument option \<Rightarrow> bool" where
  "argument_fits None a = True"
| "argument_fits (Some CHOOSE) (Some (Options opts)) = True"
| "argument_fits (Some QUESTION) (Some (Text t)) = True"
| "argument_fits (Some k) a = False"

definition InputLoop_inv :: "InputLoop \<Rightarrow> bool" where
  "InputLoop_inv s =
     (length (buf s) = 1024 \<and> argument_fits (h_action (history s)) (h_argument (history s)))"

text \<open>Reading a decimal string back, to show that \<open>String_nat\<close> is injective.\<close>

definition digit_val :: "char \<Rightarrow> nat" where
  "digit_val c = of_char c - 48"

definition parse_nat :: "string \<Rightarrow> nat" where
  "parse_nat t = foldl (\<lambda>a c. 10 * a + digit_val c) 0 t"

text \<open>The next read of standard input gives no bytes: the stream is closed or the piece is empty.\<close>

definition no_data :: "InputLoop \<Rightarrow> bool" where
  "no_data s = (case stdin s of [] \<Rightarrow> True | piece # rest \<Rightarrow> piece = [])"

text \<open>
  The menu of \<open>choose\<close> can be built on a host: the separator can (an inline separator
  that with its two spaces fits the host's strings; or else an inline spacing, 2 when
  absent, zero or NaN, that is finite and truncates to a count from zero up to the
  greatest length of a string), and the text of every option fits the host's strings.
\<close>

definition menu_ok :: "Host \<Rightarrow> Preferences \<Rightarrow> string list \<Rightarrow> bool" where
  "menu_ok h preferences options =
     (case separator_of h preferences of
        Inl e \<Rightarrow> False
      | Inr separator \<Rightarrow>
          list_all (\<lambda>io. case option_text h preferences separator io of
                           Inl e \<Rightarrow> False | Inr line \<Rightarrow> True)
            (enumerate 0 options))"

text \<open>Text of ASCII characters only, which the decoder returns as it is.\<close>

definition ascii :: "string \<Rightarrow> bool" where
  "ascii t = list_all (\<lambda>c. byte c < 0x80) t"

text \<open>
  Names for two parts of the body of \<open>choose\<close>: the state once the menu is written,
  and the state once the answer is recorded (lines 132 to 136).
\<close>

definition rendered :: "string list \<Rightarrow> Preferences \<Rightarrow> string \<Rightarrow> InputLoop \<Rightarrow> InputLoop" where
  "rendered options preferences separator s =
     render_bottom preferences
       (snd (render_options preferences separator (render_top preferences s)
               (enumerate 0 options)))"

definition finish :: "string list \<Rightarrow> Preferences \<Rightarrow> string \<Rightarrow> InputLoop \<Rightarrow> InputLoop" where
  "finish options preferences result s =
     (let s5 = history_save (Options options) CHOOSE
                 (Some (nullish (lastOptionClose preferences) False)) None s
      in if truthy_bool (lastOptionClose preferences)
            \<and> result = String_int (int (length options) - 1)
         then close s5 else s5)"

text \<open>
  A host for the examples: the string limit of V8 on a 64-bit machine. No example
  passes a number that is not a safe integer, so the printer of those is never called
  there; it is given a constant text.
\<close>

definition example_host :: Host where
  "example_host =
     \<lparr>String_kMaxLength = 2 ^ 29 - 24, Number_toString_inexact = (\<lambda>q. ''inexact'')\<rparr>"

section \<open>Properties\<close>

subsection \<open>Decimal strings\<close>

lemma digit_val_digit_char: "d < 10 \<Longrightarrow> digit_val (digit_char d) = d"
  by (simp add: digit_val_def digit_char_def)

lemma parse_nat_String_nat: "parse_nat (String_nat n) = n"
proof (induction n rule: String_nat.induct)
  case (1 n)
  show ?case
  proof (cases "n < 10")
    case True
    then show ?thesis
      by (simp add: String_nat.simps [of n] parse_nat_def digit_val_digit_char)
  next
    case False
    then have "parse_nat (String_nat (n div 10)) = n div 10"
      using 1 by simp
    with False show ?thesis
      by (simp add: String_nat.simps [of n] parse_nat_def digit_val_digit_char)
  qed
qed

lemma String_nat_inj: "String_nat m = String_nat n \<longleftrightarrow> m = n"
  by (metis parse_nat_String_nat)

lemma set_String_nat: "set (String_nat n) \<subseteq> digit_char ` {0..<10}"
proof (induction n rule: String_nat.induct)
  case (1 n)
  show ?case
  proof (cases "n < 10")
    case True
    then show ?thesis by (simp add: String_nat.simps [of n])
  next
    case False
    with 1 show ?thesis by (simp add: String_nat.simps [of n])
  qed
qed

lemma digit_char_not_special:
  assumes "d < 10"
  shows "digit_char d \<noteq> LF" and "digit_char d \<noteq> CR" and "digit_char d \<noteq> CHR ''-''"
proof -
  have v: "(of_char (digit_char d) :: nat) = 48 + d"
    using assms by (simp add: digit_char_def)
  show "digit_char d \<noteq> LF"
  proof
    assume "digit_char d = LF"
    then have "(of_char (digit_char d) :: nat) = of_char LF" by simp
    with v show False by (simp add: LF_def)
  qed
  show "digit_char d \<noteq> CR"
  proof
    assume "digit_char d = CR"
    then have "(of_char (digit_char d) :: nat) = of_char CR" by simp
    with v show False by (simp add: CR_def)
  qed
  show "digit_char d \<noteq> CHR ''-''"
  proof
    assume "digit_char d = CHR ''-''"
    then have "(of_char (digit_char d) :: nat) = of_char (CHR ''-'')" by simp
    with v show False by simp
  qed
qed

lemma String_nat_free:
  "LF \<notin> set (String_nat n)" "CR \<notin> set (String_nat n)" "CHR ''-'' \<notin> set (String_nat n)"
proof -
  have "c \<noteq> LF \<and> c \<noteq> CR \<and> c \<noteq> CHR ''-''" if "c \<in> set (String_nat n)" for c
  proof -
    from that set_String_nat [of n] obtain d where "d < 10" "c = digit_char d"
      by auto
    then show ?thesis using digit_char_not_special [of d] by simp
  qed
  then show "LF \<notin> set (String_nat n)" "CR \<notin> set (String_nat n)"
    "CHR ''-'' \<notin> set (String_nat n)"
    by blast+
qed

lemma String_int_nat: "String_int (int n) = String_nat n"
  by (simp add: String_int_def)

lemma String_int_inj: "String_int i = String_int j \<longleftrightarrow> i = j"
proof
  assume eq: "String_int i = String_int j"
  have minus: "CHR ''-'' # t \<noteq> String_nat n" for t n
    using String_nat_free(3) [of n] by (metis list.set_intros(1))
  show "i = j"
  proof (cases "i < 0")
    case True
    show ?thesis
    proof (cases "j < 0")
      case True
      with \<open>i < 0\<close> eq have "nat (- i) = nat (- j)"
        by (simp add: String_int_def String_nat_inj)
      with True \<open>i < 0\<close> show ?thesis by simp
    next
      case False
      with \<open>i < 0\<close> eq minus show ?thesis by (simp add: String_int_def)
    qed
  next
    case False
    show ?thesis
    proof (cases "j < 0")
      case True
      with False eq minus [of "String_nat (nat (- j))" "nat i"] show ?thesis
        by (simp add: String_int_def)
    next
      case j: False
      with False eq have "nat i = nat j"
        by (simp add: String_int_def String_nat_inj)
      with False j show ?thesis by simp
    qed
  qed
qed simp

lemma String_int_free: "LF \<notin> set (String_int i)" "CR \<notin> set (String_int i)"
  using String_nat_free by (auto simp: String_int_def LF_def CR_def)

subsection \<open>Cleaning\<close>

lemma replace_absent: "p \<notin> set t \<Longrightarrow> replace p [] t = t"
  by (induction t) auto

lemma replace_remove1: "replace p [] t = remove1 p t"
  by (induction t) auto

lemma cleanInput_free: "LF \<notin> set t \<Longrightarrow> CR \<notin> set t \<Longrightarrow> cleanInput (Some t) = t"
  by (simp add: cleanInput_def replace_absent)

lemma cleanInput_String_int: "cleanInput (Some (String_int i)) = String_int i"
  by (simp add: cleanInput_free String_int_free)

lemma cleanInput_String_nat: "cleanInput (Some (String_nat n)) = String_nat n"
  by (simp add: cleanInput_free String_nat_free)

lemma cleanInput_line:
  assumes "LF \<notin> set body" "CR \<notin> set body"
    and "eol \<in> {[], [LF], [CR], [CR, LF], [LF, CR]}"
  shows "cleanInput (Some (body @ eol)) = body"
proof -
  have a: "replace p r (body @ t) = body @ replace p r t" if "p \<notin> set body" for p r t
    using that by (induction body) auto
  have ne: "CR \<noteq> LF" by (simp add: CR_def LF_def)
  from assms(3) show ?thesis
    using assms(1,2) ne by (auto simp: cleanInput_def a)
qed

subsection \<open>Numbers as text\<close>

lemma Number_toString_int:
  "\<bar>i\<bar> \<le> 2 ^ 53 \<Longrightarrow> Number_toString h (Finite (of_int i)) = String_int i"
proof -
  assume "\<bar>i\<bar> \<le> 2 ^ 53"
  then have "\<bar>(of_int i :: rat)\<bar> \<le> 2 ^ 53"
    by (metis of_int_abs of_int_le_numeral_power_cancel_iff)
  then show ?thesis
    by (simp add: Number_toString_def safe_integer_def)
qed

lemma Number_toString_nat:
  "n \<le> 2 ^ 53 \<Longrightarrow> Number_toString h (Finite (of_nat n)) = String_nat n"
  using Number_toString_int [of "int n" h] by (simp add: String_int_nat)

lemma Number_toString_special:
  "Number_toString h NaN = ''NaN''" "Number_toString h PosInfinity = ''Infinity''"
  "Number_toString h NegInfinity = ''-Infinity''"
  by (simp_all add: Number_toString_def)

subsection \<open>Decoding\<close>

lemma utf8_run_ascii: "ascii t \<Longrightarrow> utf8_run utf8_idle t = t"
  by (induction t) (simp_all add: ascii_def utf8_step_def utf8_start_def utf8_idle_def)

lemma strip_BOM_ascii: "ascii t \<Longrightarrow> strip_BOM t = t"
proof (cases t)
  case Nil
  then show ?thesis by (simp add: strip_BOM_def)
next
  case (Cons c cs)
  assume "ascii t"
  with Cons have "byte c < 0x80" by (simp add: ascii_def)
  then have "c \<noteq> CHR 0xEF" by (auto simp: byte_def)
  with Cons show ?thesis
    by (cases cs; cases "tl cs") (auto simp: strip_BOM_def)
qed

lemma TextDecoder_decode_ascii: "ascii t \<Longrightarrow> TextDecoder_decode t = t"
  by (simp add: TextDecoder_decode_def strip_BOM_ascii utf8_run_ascii)

lemma ascii_append: "ascii (a @ b) \<longleftrightarrow> ascii a \<and> ascii b"
  by (simp add: ascii_def)

lemma ascii_eol: "ascii [LF]" "ascii [CR]" "ascii [CR, LF]" "ascii [LF, CR]" "ascii []"
  by (simp_all add: ascii_def byte_def LF_def CR_def)

subsection \<open>Rendering writes to the output only\<close>

lemma out_calls_frame [simp]:
  "buf (out_print t nl s) = buf s" "done_flag (out_print t nl s) = done_flag s"
  "history (out_print t nl s) = history s" "stdin (out_print t nl s) = stdin s"
  "host (out_print t nl s) = host s"
  "buf (out_newline s) = buf s" "done_flag (out_newline s) = done_flag s"
  "history (out_newline s) = history s" "stdin (out_newline s) = stdin s"
  "host (out_newline s) = host s"
  "buf (out_divider n c s) = buf s" "done_flag (out_divider n c s) = done_flag s"
  "history (out_divider n c s) = history s" "stdin (out_divider n c s) = stdin s"
  "host (out_divider n c s) = host s"
  by (simp_all add: out_print_def out_newline_def out_divider_def)

lemma render_top_frame [simp]:
  "buf (render_top p s) = buf s" "done_flag (render_top p s) = done_flag s"
  "history (render_top p s) = history s" "stdin (render_top p s) = stdin s"
  "host (render_top p s) = host s"
  by (simp_all add: render_top_def Let_def)

lemma render_bottom_frame [simp]:
  "buf (render_bottom p s) = buf s" "done_flag (render_bottom p s) = done_flag s"
  "history (render_bottom p s) = history s" "stdin (render_bottom p s) = stdin s"
  "host (render_bottom p s) = host s"
  by (simp_all add: render_bottom_def Let_def)

lemma render_option_frame [simp]:
  "buf (snd (render_option p sep s io)) = buf s"
  "done_flag (snd (render_option p sep s io)) = done_flag s"
  "history (snd (render_option p sep s io)) = history s"
  "stdin (snd (render_option p sep s io)) = stdin s"
  "host (snd (render_option p sep s io)) = host s"
  by (simp_all add: render_option_def split: sum.splits)

lemma render_options_step:
  "render_options p sep s (io # ios) =
     (if fst (render_option p sep s io) = None
      then render_options p sep (snd (render_option p sep s io)) ios
      else render_option p sep s io)"
  by (cases "render_option p sep s io") (auto split: option.splits)

lemma render_options_frame [simp]:
  "buf (snd (render_options p sep s ios)) = buf s"
  "done_flag (snd (render_options p sep s ios)) = done_flag s"
  "history (snd (render_options p sep s ios)) = history s"
  "stdin (snd (render_options p sep s ios)) = stdin s"
  "host (snd (render_options p sep s ios)) = host s"
  by (induction ios arbitrary: s) (simp_all add: render_options_step del: render_options.simps(2))

lemma rendered_frame [simp]:
  "buf (rendered options p sep s) = buf s" "done_flag (rendered options p sep s) = done_flag s"
  "history (rendered options p sep s) = history s" "stdin (rendered options p sep s) = stdin s"
  "host (rendered options p sep s) = host s"
  by (simp_all add: rendered_def)

lemma history_save_frame [simp]:
  "buf (history_save a k loc nl s) = buf s" "done_flag (history_save a k loc nl s) = done_flag s"
  "stdin (history_save a k loc nl s) = stdin s" "host (history_save a k loc nl s) = host s"
  "history (history_save a k loc nl s) = History_save a k loc nl (history s)"
  by (simp_all add: history_save_def)

lemma close_frame [simp]:
  "buf (close s) = buf s" "done_flag (close s)" "history (close s) = history s"
  "stdin (close s) = stdin s" "host (close s) = host s"
  by (simp_all add: close_def)

lemma finish_frame [simp]:
  "buf (finish options p result s) = buf s" "stdin (finish options p result s) = stdin s"
  "host (finish options p result s) = host s"
  "history (finish options p result s)
     = History_save (Options options) CHOOSE (Some (nullish (lastOptionClose p) False)) None
         (history s)"
  "done_flag (finish options p result s)
     = (done_flag s \<or> (truthy_bool (lastOptionClose p)
          \<and> result = String_int (int (length options) - 1)))"
  by (auto simp: finish_def Let_def)

subsection \<open>Reading\<close>

lemma read_closed: "stdin s = [] \<Longrightarrow> read s = (Inl EndOfInput, s)"
  by (simp add: read_def stdin_read_def)

lemma read_zero: "stdin s = [] # rest \<Longrightarrow> read s = (Inl EndOfInput, s\<lparr>stdin := rest\<rparr>)"
  by (simp add: read_def stdin_read_def)

lemma read_data:
  assumes "stdin s = piece # rest" "piece \<noteq> []" "buf s \<noteq> []"
  shows "fst (read s)
           = Inr (cleanInput (Some (TextDecoder_decode (take (length (buf s)) piece))))"
    and "stdin (snd (read s))
           = (if drop (length (buf s)) piece = [] then rest
              else drop (length (buf s)) piece # rest)"
proof -
  have "take (min (length piece) (length (buf s))) piece = take (length (buf s)) piece"
    by (cases "length piece \<le> length (buf s)") (simp_all add: min_def)
  then show "fst (read s)
           = Inr (cleanInput (Some (TextDecoder_decode (take (length (buf s)) piece))))"
    using assms by (simp add: read_def stdin_read_def Let_def)
  show "stdin (snd (read s))
           = (if drop (length (buf s)) piece = [] then rest
              else drop (length (buf s)) piece # rest)"
    using assms by (simp add: read_def stdin_read_def Let_def)
qed

lemma read_fails_iff:
  assumes "buf s \<noteq> []"
  shows "(\<exists>e. fst (read s) = Inl e) \<longleftrightarrow> no_data s"
proof (cases "stdin s")
  case Nil
  then show ?thesis by (simp add: read_closed no_data_def)
next
  case (Cons piece rest)
  show ?thesis
  proof (cases "piece = []")
    case True
    with Cons show ?thesis by (simp add: read_zero no_data_def)
  next
    case False
    with Cons assms show ?thesis by (simp add: read_data(1) no_data_def)
  qed
qed

lemma read_error: "fst (read s) = Inl e \<Longrightarrow> e = EndOfInput"
  by (auto simp: read_def split: prod.splits option.splits if_splits)

lemma read_no_data: "no_data s \<Longrightarrow> fst (read s) = Inl EndOfInput"
  by (auto simp: no_data_def read_closed read_zero split: list.splits)

lemma read_frame [simp]:
  "done_flag (snd (read s)) = done_flag s" "history (snd (read s)) = history s"
  "out (snd (read s)) = out s" "length (buf (snd (read s))) = length (buf s)"
  "host (snd (read s)) = host s"
  by (auto simp: read_def stdin_read_def Let_def split: list.splits)

lemma read_failed_buf: "fst (read s) = Inl e \<Longrightarrow> buf (snd (read s)) = buf s"
  by (auto simp: read_def stdin_read_def Let_def split: list.splits if_splits)

lemma read_out_irrelevant:
  assumes "buf s' = buf s" "stdin s' = stdin s"
  shows "fst (read s') = fst (read s)" "stdin (snd (read s')) = stdin (snd (read s))"
    "buf (snd (read s')) = buf (snd (read s))"
  using assms by (auto simp: read_def stdin_read_def Let_def split: list.splits)

lemma read_pair_frame:
  assumes "read s = (res, s')"
  shows "done_flag s' = done_flag s" "history s' = history s" "out s' = out s"
    "length (buf s') = length (buf s)" "stdin s' = stdin (snd (read s))"
    "buf s' = buf (snd (read s))" "host s' = host s"
  using read_frame [of s] assms by simp_all

subsection \<open>Building the menu\<close>

lemma template_error: "template h parts = Inl e \<Longrightarrow> e = RangeError"
  by (simp add: template_def split: if_splits)

lemma String_repeat_error: "String_repeat h t count = Inl e \<Longrightarrow> e = RangeError"
  by (auto simp: String_repeat_def split: number.splits if_splits)

lemma separator_of_error: "separator_of h p = Inl e \<Longrightarrow> e = RangeError"
  by (auto simp: separator_of_def dest: template_error String_repeat_error split: if_splits)

lemma option_text_error: "option_text h p sep io = Inl e \<Longrightarrow> e = RangeError"
  by (auto simp: option_text_def Let_def dest: template_error split: if_splits)

lemma render_option_error: "fst (render_option p sep s io) = Some e \<Longrightarrow> e = RangeError"
  by (auto simp: render_option_def dest: option_text_error split: sum.splits)

lemma render_options_error: "fst (render_options p sep s ios) = Some e \<Longrightarrow> e = RangeError"
proof (induction ios arbitrary: s)
  case Nil
  then show ?case by simp
next
  case (Cons io ios)
  then show ?case
    by (auto simp: render_options_step dest: render_option_error
        simp del: render_options.simps(2) split: if_splits)
qed

lemma render_option_None:
  "fst (render_option p sep s io) = None
     \<longleftrightarrow> (case option_text (host s) p sep io of Inl e \<Rightarrow> False | Inr line \<Rightarrow> True)"
  by (simp add: render_option_def split: sum.splits)

lemma render_options_None:
  "fst (render_options p sep s ios) = None
     \<longleftrightarrow> list_all (\<lambda>io. case option_text (host s) p sep io of
                          Inl e \<Rightarrow> False | Inr line \<Rightarrow> True) ios"
proof (induction ios arbitrary: s)
  case Nil
  then show ?case by simp
next
  case (Cons io ios)
  show ?case
  proof (cases "fst (render_option p sep s io) = None")
    case True
    with Cons [of "snd (render_option p sep s io)"] show ?thesis
      by (simp add: render_options_step render_option_None del: render_options.simps(2))
  next
    case False
    then show ?thesis
      by (simp add: render_options_step render_option_None del: render_options.simps(2))
  qed
qed

lemma menu_ok_iff:
  "menu_ok (host s) p options
     \<longleftrightarrow> (\<exists>sep. separator_of (host s) p = Inr sep
            \<and> fst (render_options p sep (render_top p s) (enumerate 0 options)) = None)"
  by (cases "separator_of (host s) p") (simp_all add: menu_ok_def render_options_None)

subsection \<open>The shape of a choose call\<close>

lemma selection_map_plain:
  "map (\<lambda>io. result = String_nat (fst io)) (enumerate 0 options)
     = map (\<lambda>j. result = String_nat j) [0..<length options]"
  by (rule nth_equalityI) (simp_all add: nth_enumerate_eq)

lemma selection_single:
  assumes "i < n"
  shows "map (\<lambda>j. String_nat i = String_nat j) [0..<n] = (replicate n False)[i := True]"
  using assms by (intro nth_equalityI) (simp_all add: String_nat_inj nth_list_update)

lemma choose_prompt_range:
  assumes "\<not> menu_ok (host s) p options"
  shows "fst (choose_prompt options p s) = Inl RangeError"
    and "buf (snd (choose_prompt options p s)) = buf s"
    and "done_flag (snd (choose_prompt options p s)) = done_flag s"
    and "history (snd (choose_prompt options p s)) = history s"
    and "stdin (snd (choose_prompt options p s)) = stdin s"
    and "host (snd (choose_prompt options p s)) = host s"
proof -
  show "fst (choose_prompt options p s) = Inl RangeError"
  proof (cases "separator_of (host s) p")
    case (Inl e)
    then show ?thesis
      using separator_of_error [OF Inl] by (simp add: choose_prompt_def)
  next
    case (Inr sep)
    with assms obtain e where
      e: "fst (render_options p sep (render_top p s) (enumerate 0 options)) = Some e"
      by (auto simp: menu_ok_iff)
    obtain s2 where "render_options p sep (render_top p s) (enumerate 0 options) = (Some e, s2)"
      using e by (cases "render_options p sep (render_top p s) (enumerate 0 options)") simp
    with render_options_error [OF e] Inr show ?thesis
      by (simp add: choose_prompt_def)
  qed
  have frame: "buf (snd (choose_prompt options p s)) = buf s
      \<and> done_flag (snd (choose_prompt options p s)) = done_flag s
      \<and> history (snd (choose_prompt options p s)) = history s
      \<and> stdin (snd (choose_prompt options p s)) = stdin s
      \<and> host (snd (choose_prompt options p s)) = host s"
  proof (cases "separator_of (host s) p")
    case (Inl e)
    then show ?thesis by (simp add: choose_prompt_def)
  next
    case (Inr sep)
    with assms obtain e where
      e: "fst (render_options p sep (render_top p s) (enumerate 0 options)) = Some e"
      by (auto simp: menu_ok_iff)
    obtain s2 where s2: "render_options p sep (render_top p s) (enumerate 0 options) = (Some e, s2)"
      using e by (cases "render_options p sep (render_top p s) (enumerate 0 options)") simp
    have "snd (render_options p sep (render_top p s) (enumerate 0 options)) = s2"
      by (simp add: s2)
    then have f: "buf s2 = buf s" "done_flag s2 = done_flag s" "history s2 = history s"
      "stdin s2 = stdin s" "host s2 = host s"
      using render_options_frame [of p sep "render_top p s" "enumerate 0 options"] by simp_all
    from Inr s2 f show ?thesis by (simp add: choose_prompt_def)
  qed
  from frame show "buf (snd (choose_prompt options p s)) = buf s"
    and "done_flag (snd (choose_prompt options p s)) = done_flag s"
    and "history (snd (choose_prompt options p s)) = history s"
    and "stdin (snd (choose_prompt options p s)) = stdin s"
    and "host (snd (choose_prompt options p s)) = host s"
    by simp_all
qed

lemma choose_prompt_ok:
  assumes "menu_ok (host s) p options"
  shows "\<exists>sep. choose_prompt options p s =
     (case obtain_result p (rendered options p sep s) of
        (Inl e, s4) \<Rightarrow> (Inl e, s4)
      | (Inr result, s4) \<Rightarrow>
          (Inr (map (\<lambda>j. result = String_nat j) [0..<length options]),
           finish options p result s4))"
proof -
  from assms obtain sep where sep: "separator_of (host s) p = Inr sep"
    and ok: "fst (render_options p sep (render_top p s) (enumerate 0 options)) = None"
    by (auto simp: menu_ok_iff)
  obtain s2 where s2: "render_options p sep (render_top p s) (enumerate 0 options) = (None, s2)"
    using ok by (cases "render_options p sep (render_top p s) (enumerate 0 options)") simp
  have "choose_prompt options p s =
     (case obtain_result p (rendered options p sep s) of
        (Inl e, s4) \<Rightarrow> (Inl e, s4)
      | (Inr result, s4) \<Rightarrow>
          (Inr (map (\<lambda>j. result = String_nat j) [0..<length options]),
           finish options p result s4))"
    using sep s2
    by (simp add: choose_prompt_def rendered_def finish_def Let_def selection_map_plain
        split: prod.splits sum.splits)
  then show ?thesis ..
qed

lemma obtain_result_supplied:
  "choice p = Some c
     \<Longrightarrow> obtain_result p s = (Inr (cleanInput (Some (coerceChoice (host s) c))), s)"
  by (simp add: obtain_result_def)

lemma obtain_result_read: "choice p = None \<Longrightarrow> obtain_result p s = read s"
  by (simp add: obtain_result_def)

lemma choose_prompt_cases:
  obtains
    (range) "\<not> menu_ok (host s) p options"
      "fst (choose_prompt options p s) = Inl RangeError"
      "buf (snd (choose_prompt options p s)) = buf s"
      "done_flag (snd (choose_prompt options p s)) = done_flag s"
      "history (snd (choose_prompt options p s)) = history s"
      "stdin (snd (choose_prompt options p s)) = stdin s"
  | (supplied) c sep where "menu_ok (host s) p options" "choice p = Some c"
      "choose_prompt options p s =
         (Inr (map (\<lambda>j. cleanInput (Some (coerceChoice (host s) c)) = String_nat j)
                 [0..<length options]),
          finish options p (cleanInput (Some (coerceChoice (host s) c)))
            (rendered options p sep s))"
  | (failed) sep s4 where "menu_ok (host s) p options" "choice p = None"
      "read (rendered options p sep s) = (Inl EndOfInput, s4)"
      "fst (read s) = Inl EndOfInput"
      "choose_prompt options p s = (Inl EndOfInput, s4)"
  | (answered) sep s4 result where "menu_ok (host s) p options" "choice p = None"
      "read (rendered options p sep s) = (Inr result, s4)"
      "fst (read s) = Inr result"
      "choose_prompt options p s =
         (Inr (map (\<lambda>j. result = String_nat j) [0..<length options]),
          finish options p result s4)"
proof (cases "menu_ok (host s) p options")
  case False
  then show ?thesis using range choose_prompt_range [OF False] by blast
next
  case True
  from choose_prompt_ok [OF True] obtain sep where
    eq: "choose_prompt options p s =
      (case obtain_result p (rendered options p sep s) of
         (Inl e, s4) \<Rightarrow> (Inl e, s4)
       | (Inr result, s4) \<Rightarrow>
           (Inr (map (\<lambda>j. result = String_nat j) [0..<length options]),
            finish options p result s4))"
    by blast
  show ?thesis
  proof (cases "choice p")
    case (Some c)
    with eq True show ?thesis using supplied [of c sep]
      by (simp add: obtain_result_supplied)
  next
    case None
    have same: "fst (read (rendered options p sep s)) = fst (read s)"
      by (rule read_out_irrelevant) simp_all
    obtain res s4 where r: "read (rendered options p sep s) = (res, s4)"
      by (cases "read (rendered options p sep s)")
    with same have res: "fst (read s) = res" by simp
    show ?thesis
    proof (cases res)
      case (Inl e)
      with res have "e = EndOfInput" by (simp add: read_error)
      with Inl r res eq show ?thesis using failed [of sep s4] True None
        by (simp add: obtain_result_read)
    next
      case (Inr result)
      with r res eq show ?thesis using answered [of sep result s4] True None
        by (simp add: obtain_result_read)
    qed
  qed
qed

lemma choose_prompt_shape:
  assumes "fst (choose_prompt options p s) = Inr r"
  shows "menu_ok (host s) p options"
    and "\<exists>result. fst (obtain_result p s) = Inr result
           \<and> r = map (\<lambda>j. result = String_nat j) [0..<length options]"
proof -
  show "menu_ok (host s) p options"
    using assms by (cases rule: choose_prompt_cases [of s p options]) simp_all
  show "\<exists>result. fst (obtain_result p s) = Inr result
           \<and> r = map (\<lambda>j. result = String_nat j) [0..<length options]"
    using assms
    by (cases rule: choose_prompt_cases [of s p options])
       (auto simp: obtain_result_supplied obtain_result_read)
qed

lemma choose_prompt_supplied:
  assumes "menu_ok (host s) p options" "choice p = Some c"
  shows "fst (choose_prompt options p s)
           = Inr (map (\<lambda>j. cleanInput (Some (coerceChoice (host s) c)) = String_nat j)
                   [0..<length options])"
  using assms by (cases rule: choose_prompt_cases [of s p options]) simp_all

lemma choose_prompt_done:
  "done_flag (snd (choose_prompt options p s))
     = (done_flag s
        \<or> (\<exists>result. menu_ok (host s) p options \<and> fst (obtain_result p s) = Inr result
              \<and> truthy_bool (lastOptionClose p)
              \<and> result = String_int (int (length options) - 1)))"
proof (cases rule: choose_prompt_cases [of s p options])
  case range
  then show ?thesis by simp
next
  case (supplied c sep)
  then show ?thesis by (simp add: obtain_result_supplied)
next
  case (failed sep s4)
  then show ?thesis by (simp add: obtain_result_read read_pair_frame(1) [OF failed(3)])
next
  case (answered sep s4 result)
  then show ?thesis by (simp add: obtain_result_read read_pair_frame(1) [OF answered(3)])
qed

lemma choose_prompt_history:
  "history (snd (choose_prompt options p s))
     = (case fst (choose_prompt options p s) of
          Inl e \<Rightarrow> history s
        | Inr r \<Rightarrow> History_save (Options options) CHOOSE
                    (Some (nullish (lastOptionClose p) False)) None (history s))"
proof (cases rule: choose_prompt_cases [of s p options])
  case range
  then show ?thesis by simp
next
  case (supplied c sep)
  then show ?thesis by simp
next
  case (failed sep s4)
  then show ?thesis by (simp add: read_pair_frame(2) [OF failed(3)])
next
  case (answered sep s4 result)
  then show ?thesis by (simp add: read_pair_frame(2) [OF answered(3)] History_save_def)
qed

lemma choose_prompt_buf_length:
  "length (buf (snd (choose_prompt options p s))) = length (buf s)"
proof (cases rule: choose_prompt_cases [of s p options])
  case range
  then show ?thesis by simp
next
  case (supplied c sep)
  then show ?thesis by simp
next
  case (failed sep s4)
  then show ?thesis by (simp add: read_pair_frame(4) [OF failed(3)])
next
  case (answered sep s4 result)
  then show ?thesis by (simp add: read_pair_frame(4) [OF answered(3)])
qed

lemma choose_prompt_error:
  assumes "fst (choose_prompt options p s) = Inl e"
  shows "if menu_ok (host s) p options
         then e = EndOfInput \<and> choice p = None \<and> fst (read s) = Inl EndOfInput
         else e = RangeError"
  using assms by (cases rule: choose_prompt_cases [of s p options]) simp_all

lemma choose_prompt_stdin:
  "stdin (snd (choose_prompt options p s))
     = (if menu_ok (host s) p options \<and> choice p = None then stdin (snd (read s))
        else stdin s)"
  "buf (snd (choose_prompt options p s))
     = (if menu_ok (host s) p options \<and> choice p = None then buf (snd (read s)) else buf s)"
proof -
  have a: "stdin (snd (read (rendered options p sep s))) = stdin (snd (read s))"
    "buf (snd (read (rendered options p sep s))) = buf (snd (read s))" for sep
    by (rule read_out_irrelevant; simp)+
  show "stdin (snd (choose_prompt options p s))
     = (if menu_ok (host s) p options \<and> choice p = None then stdin (snd (read s))
        else stdin s)"
  proof (cases rule: choose_prompt_cases [of s p options])
    case (failed sep s4)
    then show ?thesis using a(1) [of sep] by simp
  next
    case (answered sep s4 result)
    then show ?thesis using a(1) [of sep] by simp
  qed simp_all
  show "buf (snd (choose_prompt options p s))
     = (if menu_ok (host s) p options \<and> choice p = None then buf (snd (read s)) else buf s)"
  proof (cases rule: choose_prompt_cases [of s p options])
    case (failed sep s4)
    then show ?thesis using a(2) [of sep] by simp
  next
    case (answered sep s4 result)
    then show ?thesis using a(2) [of sep] by simp
  qed simp_all
qed

subsection \<open>Question and repeat\<close>

lemma question_supplied:
  "truthy w \<Longrightarrow> question text nl (Some w) s
     = (Inr (cleanInput (Some (coerceChoice (host s) w))),
        history_save (Text text) QUESTION None (Some (nullish nl True))
          (out_print text (Some (nullish nl True)) s))"
  by (simp add: question_def Let_def)

lemma question_read:
  "v = None \<or> (\<exists>w. v = Some w \<and> \<not> truthy w) \<Longrightarrow> question text nl v s
     = read (history_save (Text text) QUESTION None (Some (nullish nl True))
          (out_print text (Some (nullish nl True)) s))"
  by (auto simp: question_def Let_def)

lemma question_frame:
  "done_flag (snd (question text nl v s)) = done_flag s"
  "history (snd (question text nl v s))
     = History_save (Text text) QUESTION None (Some (nullish nl True)) (history s)"
  "length (buf (snd (question text nl v s))) = length (buf s)"
  by (auto simp: question_def Let_def split: option.splits)

lemma question_error: "fst (question text nl v s) = Inl e \<Longrightarrow> e = EndOfInput"
  by (auto simp: question_def Let_def read_error split: option.splits if_splits)

lemma settle_simps [simp]:
  "snd (settle f p) = snd p"
  "fst (settle f p) = (case fst p of Inl e \<Rightarrow> Inl e | Inr r \<Rightarrow> Inr (f r))"
  by (simp_all add: settle_def split: sum.splits)

lemma repeat_cases:
  assumes "InputLoop_inv s"
  obtains
    (nothing) "h_action (history s) = None" "repeat v s = (Inr Undefined, s)"
  | (choose) opts where "h_action (history s) = Some CHOOSE"
      "h_argument (history s) = Some (Options opts)"
      "repeat v s = settle Selected
         (choose_prompt opts
            (no_preferences\<lparr>lastOptionClose := h_lastOptionClose (history s), choice := v\<rparr>) s)"
  | (question) t where "h_action (history s) = Some QUESTION"
      "h_argument (history s) = Some (Text t)"
      "repeat v s = settle Answer (question t (h_includeNewline (history s)) v s)"
proof (cases "h_action (history s)")
  case None
  then have "repeat v s = (Inr Undefined, s)"
    by (simp add: repeat_def History_retrieve_def action_truthy_def)
  with None show ?thesis by (rule nothing)
next
  case (Some k)
  show ?thesis
  proof (cases k)
    case CHOOSE
    with Some assms obtain opts where a: "h_argument (history s) = Some (Options opts)"
      by (auto simp: InputLoop_inv_def elim: argument_fits.elims)
    with Some CHOOSE have "repeat v s = settle Selected
         (choose_prompt opts
            (no_preferences\<lparr>lastOptionClose := h_lastOptionClose (history s), choice := v\<rparr>) s)"
      by (simp add: repeat_def History_retrieve_def action_truthy_def)
    with Some CHOOSE a show ?thesis using choose [of opts] by simp
  next
    case QUESTION
    with Some assms obtain t where a: "h_argument (history s) = Some (Text t)"
      by (auto simp: InputLoop_inv_def elim: argument_fits.elims)
    with Some QUESTION have
      "repeat v s = settle Answer (question t (h_includeNewline (history s)) v s)"
      by (simp add: repeat_def History_retrieve_def action_truthy_def)
    with Some QUESTION a show ?thesis using question [of t] by simp
  qed
qed

lemma repeat_error:
  assumes "InputLoop_inv s" "fst (repeat v s) = Inl e"
  shows "e = EndOfInput \<or> e = RangeError"
  using assms(1)
proof (cases rule: repeat_cases [of s v])
  case nothing
  with assms(2) show ?thesis by simp
next
  case (choose opts)
  with assms(2) have "fst (choose_prompt opts
       (no_preferences\<lparr>lastOptionClose := h_lastOptionClose (history s), choice := v\<rparr>) s)
       = Inl e"
    by (auto split: sum.splits)
  from choose_prompt_error [OF this] show ?thesis
    by (auto split: if_splits)
next
  case (question t)
  with assms(2) question_error [of t _ v s e] show ?thesis
    by (auto split: sum.splits)
qed

subsection \<open>The invariant\<close>

lemma inv_new: "InputLoop_inv (InputLoop_new h input)"
  by (simp add: InputLoop_inv_def InputLoop_new_def History_new_def)

lemma inv_close: "InputLoop_inv s \<Longrightarrow> InputLoop_inv (close s)"
  by (simp add: InputLoop_inv_def)

lemma inv_read: "InputLoop_inv s \<Longrightarrow> InputLoop_inv (snd (read s))"
  by (simp add: InputLoop_inv_def)

lemma inv_choose: "InputLoop_inv s \<Longrightarrow> InputLoop_inv (snd (choose_prompt options p s))"
  by (simp add: InputLoop_inv_def choose_prompt_history choose_prompt_buf_length
      History_save_def split: sum.splits)

lemma inv_question: "InputLoop_inv s \<Longrightarrow> InputLoop_inv (snd (question text nl v s))"
  by (simp add: InputLoop_inv_def question_frame History_save_def)

lemma inv_repeat:
  assumes "InputLoop_inv s"
  shows "InputLoop_inv (snd (repeat v s))"
  using assms
  by (cases rule: repeat_cases [of s v]) (simp_all add: assms inv_choose inv_question)

subsection \<open>Repeating after a prompt\<close>

lemma repeat_after_choose:
  assumes "choose_prompt options p s0 = (Inr r, s)"
  shows "repeat v s = settle Selected
           (choose_prompt options
              (no_preferences
                 \<lparr>lastOptionClose := Some (nullish (lastOptionClose p) False), choice := v\<rparr>) s)"
proof -
  from choose_prompt_history [of options p s0] assms
  have "history s = History_save (Options options) CHOOSE
                      (Some (nullish (lastOptionClose p) False)) None (history s0)"
    by simp
  then show ?thesis
    by (simp add: repeat_def History_retrieve_def History_save_def action_truthy_def)
qed

lemma repeat_after_question:
  assumes "snd (question t nl w s0) = s"
  shows "repeat v s = settle Answer (question t (Some (nullish nl True)) v s)"
proof -
  from question_frame(2) [of t nl w s0] assms
  have "history s = History_save (Text t) QUESTION None (Some (nullish nl True)) (history s0)"
    by simp
  then show ?thesis
    by (simp add: repeat_def History_retrieve_def History_save_def action_truthy_def)
qed

subsection \<open>Spacings that cannot be built\<close>

lemma code_units_space: "code_units '' '' = 1"
  by (simp add: code_units_def byte_def)

lemma trunc_cases:
  assumes "q \<le> - 1 \<or> of_int L + 1 \<le> q"
  shows "trunc q < 0 \<or> L < trunc q"
proof (cases "0 \<le> q")
  case True
  with assms have "of_int L + 1 \<le> q" by linarith
  then have "L + 1 \<le> \<lfloor>q\<rfloor>" by (simp add: le_floor_iff)
  with True show ?thesis by (simp add: trunc_def)
next
  case False
  show ?thesis
  proof (cases "q \<le> - 1")
    case True
    then have "1 \<le> - q" by simp
    then have "1 \<le> \<lfloor>- q\<rfloor>" by (simp add: le_floor_iff)
    with False show ?thesis by (simp add: trunc_def)
  next
    case small: False
    with assms have l: "of_int L + 1 \<le> q" by simp
    from False small have "0 \<le> - q" "- q < 1" by simp_all
    then have "\<lfloor>- q\<rfloor> = 0" by (simp add: floor_eq_iff)
    with False have t: "trunc q = 0" by (simp add: trunc_def)
    from l False have "(of_int L :: rat) < 0" by linarith
    then have "L < 0" by simp
    with t show ?thesis by simp
  qed
qed

lemma spacing_not_ok:
  assumes "\<not> truthy_string (inlineSeparator p)"
    and "inlineSpacing p = Some PosInfinity \<or> inlineSpacing p = Some NegInfinity
         \<or> (\<exists>q. inlineSpacing p = Some (Finite q)
               \<and> (q \<le> - 1 \<or> of_int (String_kMaxLength h) + 1 \<le> q))"
  shows "\<not> menu_ok h p options"
proof -
  have finite: "\<exists>e. String_repeat h '' '' (number_or (Some (Finite q)) (Finite 2)) = Inl e"
    if q: "q \<le> - 1 \<or> of_int (String_kMaxLength h) + 1 \<le> q" for q
  proof (cases "q = 0")
    case True
    with q have "(of_int (String_kMaxLength h) :: rat) + 1 \<le> 0" by simp
    then have "(of_int (String_kMaxLength h) :: rat) < 2" by linarith
    then have "String_kMaxLength h < 2" by simp
    with True show ?thesis
      by (simp add: String_repeat_def number_or_def trunc_def code_units_space)
  next
    case False
    with trunc_cases [OF q] show ?thesis
      by (auto simp: String_repeat_def number_or_def code_units_space)
  qed
  have sep: "separator_of h p = String_repeat h '' '' (number_or (inlineSpacing p) (Finite 2))"
    using assms(1) by (simp add: separator_of_def)
  consider (pos) "inlineSpacing p = Some PosInfinity"
    | (neg) "inlineSpacing p = Some NegInfinity"
    | (fin) q where "inlineSpacing p = Some (Finite q)"
        "q \<le> - 1 \<or> of_int (String_kMaxLength h) + 1 \<le> q"
    using assms(2) by blast
  then have "\<exists>e. separator_of h p = Inl e"
  proof cases
    case pos
    then show ?thesis by (simp add: sep String_repeat_def number_or_def)
  next
    case neg
    then show ?thesis by (simp add: sep String_repeat_def number_or_def)
  next
    case (fin q)
    then show ?thesis using finite [of q] by (simp add: sep)
  qed
  then show ?thesis by (auto simp: menu_ok_def)
qed

section \<open>The claims\<close>

subsection \<open>What choose returns\<close>

text \<open>
  C1, as amended. Whenever the menu can be built on the host (the separator, and the
  text of every option): for an option list of length \<open>N\<close> below \<open>2^32\<close> and a supplied
  choice equal to an index \<open>i < N\<close>, as a number or as its decimal string, \<open>choose\<close>
  resolves to the boolean sequence of length \<open>N\<close> that is true at position \<open>i\<close> only.
  More generally every sequence that \<open>choose\<close> resolves to has one boolean per option,
  true exactly at the position whose index, printed in decimal, is the answer obtained,
  and is all false when the answer is the decimal string of no index.
\<close>

theorem choose_selects:
  assumes "menu_ok (host s) preferences options"
  shows "(\<forall>i < length options.
            length options < 2 ^ 32
            \<and> (choice preferences = Some (Num (Finite (of_nat i)))
                 \<or> choice preferences = Some (Str (String_nat i)))
            \<longrightarrow> fst (choose_prompt options preferences s)
                  = Inr ((replicate (length options) False)[i := True]))
       \<and> (\<forall>r. fst (choose_prompt options preferences s) = Inr r \<longrightarrow>
            (\<exists>result. fst (obtain_result preferences s) = Inr result
               \<and> length r = length options
               \<and> (\<forall>j < length options. r ! j \<longleftrightarrow> result = String_nat j)
               \<and> ((\<forall>j < length options. result \<noteq> String_nat j)
                    \<longrightarrow> r = replicate (length options) False)))"
proof (intro conjI allI impI)
  fix i
  assume i: "i < length options"
    and c: "length options < 2 ^ 32
            \<and> (choice preferences = Some (Num (Finite (of_nat i)))
                 \<or> choice preferences = Some (Str (String_nat i)))"
  from i c have "i \<le> 2 ^ 53" by simp
  then have "Number_toString (host s) (Finite (of_nat i)) = String_nat i"
    by (rule Number_toString_nat)
  with c obtain v where v: "choice preferences = Some v"
    and clean: "cleanInput (Some (coerceChoice (host s) v)) = String_nat i"
    by (auto simp: coerceChoice_def cleanInput_String_nat)
  from choose_prompt_supplied [OF assms v] clean
  have "fst (choose_prompt options preferences s)
          = Inr (map (\<lambda>j. String_nat i = String_nat j) [0..<length options])"
    by simp
  with i show "fst (choose_prompt options preferences s)
                  = Inr ((replicate (length options) False)[i := True])"
    by (simp add: selection_single)
next
  fix r
  assume "fst (choose_prompt options preferences s) = Inr r"
  from choose_prompt_shape(2) [OF this] obtain result where
    res: "fst (obtain_result preferences s) = Inr result"
    and r: "r = map (\<lambda>j. result = String_nat j) [0..<length options]"
    by blast
  have "r = replicate (length options) False" if "\<forall>j < length options. result \<noteq> String_nat j"
    using that r by (intro nth_equalityI) simp_all
  with res r show "\<exists>result. fst (obtain_result preferences s) = Inr result
               \<and> length r = length options
               \<and> (\<forall>j < length options. r ! j \<longleftrightarrow> result = String_nat j)
               \<and> ((\<forall>j < length options. result \<noteq> String_nat j)
                    \<longrightarrow> r = replicate (length options) False)"
    by auto
qed

text \<open>The amended statement at three options and the supplied choice 1.\<close>

theorem choose_selects_witness:
  "menu_ok (host (InputLoop_new example_host []))
     (no_preferences\<lparr>choice := Some (Num (Finite 1))\<rparr>) [''A'', ''B'', ''C'']
   \<and> fst (choose_prompt [''A'', ''B'', ''C''] (no_preferences\<lparr>choice := Some (Num (Finite 1))\<rparr>)
          (InputLoop_new example_host []))
       = Inr [False, True, False]"
proof -
  have h: "menu_ok (host (InputLoop_new example_host []))
     (no_preferences\<lparr>choice := Some (Num (Finite 1))\<rparr>) [''A'', ''B'', ''C'']"
    by code_simp
  have one: "Finite (of_nat 1) = Finite 1" by simp
  from choose_selects [OF h] h one
  show ?thesis by (simp add: no_preferences_def)
qed

text \<open>
  With an inline spacing of -1 and no inline separator, building the separator raises
  a range error, and \<open>choose\<close> rejects instead of resolving to a boolean sequence.
  And the match of answer and index is one of strings: the answer \<open>01\<close>, whose
  numeric value is the index 1, selects nothing.
\<close>

theorem choose_resolves_counterexample:
  "fst (choose_prompt [''A'', ''B'']
         (no_preferences\<lparr>choice := Some (Num (Finite 0)), inlineSpacing := Some (Finite (- 1))\<rparr>)
         (InputLoop_new example_host []))
     = Inl RangeError
   \<and> fst (choose_prompt [''A'', ''B''] (no_preferences\<lparr>choice := Some (Str ''01'')\<rparr>)
          (InputLoop_new example_host []))
       = Inr [False, False]"
  by code_simp

subsection \<open>Closing on the last option\<close>

text \<open>
  C2, as amended. Starting from \<open>done = false\<close>: supplying a choice equal to the last
  option's index, as a number or as its decimal string, with \<open>lastOptionClose = true\<close>
  sets \<open>done\<close> to true whenever the menu can be built on the host; supplying any other
  index leaves \<open>done\<close> false, whatever the other preferences are.
\<close>

theorem choose_closes_on_last:
  assumes "\<not> done_flag s"
  shows "(menu_ok (host s) preferences options \<and> options \<noteq> [] \<and> length options < 2 ^ 32
          \<and> lastOptionClose preferences = Some True
          \<and> (choice preferences = Some (Num (Finite (of_int (int (length options) - 1))))
               \<or> choice preferences = Some (Str (String_int (int (length options) - 1))))
          \<longrightarrow> done_flag (snd (choose_prompt options preferences s)))
       \<and> (\<forall>i. i \<noteq> int (length options) - 1 \<and> \<bar>i\<bar> \<le> 2 ^ 53
              \<and> (choice preferences = Some (Num (Finite (of_int i)))
                   \<or> choice preferences = Some (Str (String_int i)))
          \<longrightarrow> \<not> done_flag (snd (choose_prompt options preferences s)))"
proof -
  have answer: "fst (obtain_result preferences s) = Inr (String_int i)"
    if "\<bar>i\<bar> \<le> 2 ^ 53"
      "choice preferences = Some (Num (Finite (of_int i)))
         \<or> choice preferences = Some (Str (String_int i))"
    for i
    using that
    by (auto simp: obtain_result_supplied coerceChoice_def cleanInput_String_int
        Number_toString_int)
  have last: "\<bar>int (length options) - 1\<bar> \<le> 2 ^ 53" if "length options < 2 ^ 32"
    using that by simp
  have one: "done_flag (snd (choose_prompt options preferences s))"
    if "menu_ok (host s) preferences options" "length options < 2 ^ 32"
      "lastOptionClose preferences = Some True"
      "choice preferences = Some (Num (Finite (of_int (int (length options) - 1))))
         \<or> choice preferences = Some (Str (String_int (int (length options) - 1)))"
    using answer [OF last [OF that(2)] that(4)] that(1,3)
    by (simp add: choose_prompt_done truthy_bool_def)
  have two: "\<not> done_flag (snd (choose_prompt options preferences s))"
    if "i \<noteq> int (length options) - 1" "\<bar>i\<bar> \<le> 2 ^ 53"
      "choice preferences = Some (Num (Finite (of_int i)))
         \<or> choice preferences = Some (Str (String_int i))"
    for i
    using answer [OF that(2,3)] that(1) assms
    by (simp add: choose_prompt_done String_int_inj)
  from one two show ?thesis by blast
qed

text \<open>Two options: the supplied choice 1 closes the loop, the supplied choice 0 does not.\<close>

theorem choose_closes_on_last_witness:
  "\<not> done_flag (InputLoop_new example_host [])
   \<and> done_flag (snd (choose_prompt [''A'', ''B'']
        (no_preferences\<lparr>choice := Some (Num (Finite 1)), lastOptionClose := Some True\<rparr>)
        (InputLoop_new example_host [])))
   \<and> \<not> done_flag (snd (choose_prompt [''A'', ''B'']
        (no_preferences\<lparr>choice := Some (Num (Finite 0)), lastOptionClose := Some True\<rparr>)
        (InputLoop_new example_host [])))"
proof -
  have h: "\<not> done_flag (InputLoop_new example_host [])"
    by (simp add: InputLoop_new_def)
  have ok: "menu_ok (host (InputLoop_new example_host []))
     (no_preferences\<lparr>choice := Some (Num (Finite 1)), lastOptionClose := Some True\<rparr>)
     [''A'', ''B'']"
    by code_simp
  have n: "Finite (of_int (int (length [''A'', ''B'']) - 1)) = Finite 1"
    "Finite (of_int 0) = Finite 0"
    by simp_all
  from choose_closes_on_last [OF h,
      of "no_preferences\<lparr>choice := Some (Num (Finite 1)), lastOptionClose := Some True\<rparr>"
        "[''A'', ''B'']"]
    choose_closes_on_last [OF h,
      of "no_preferences\<lparr>choice := Some (Num (Finite 0)), lastOptionClose := Some True\<rparr>"
        "[''A'', ''B'']"]
    h ok n
  show ?thesis by (auto simp: no_preferences_def)
qed

text \<open>
  The same closing call with an inline spacing of -3: the range error comes before the
  comparison with the last index, and \<open>done\<close> stays false.
\<close>

theorem choose_closes_counterexample:
  "\<not> done_flag (InputLoop_new example_host [])
   \<and> \<not> done_flag (snd (choose_prompt [''A'', ''B'']
        (no_preferences
           \<lparr>choice := Some (Num (Finite 1)), lastOptionClose := Some True,
            inlineSpacing := Some (Finite (- 3))\<rparr>)
        (InputLoop_new example_host [])))"
  by code_simp

subsection \<open>The answer to a question\<close>

text \<open>
  C3, as amended. For every supplied value that is truthy, which is a non-empty string
  or a number other than zero and NaN, \<open>question\<close> resolves without reading standard
  input, with the coerced value from which the first line feed and the first carriage
  return have been removed: the coerced value itself when it holds neither character,
  as the digits of an integer and the name of an infinity do. When no value is supplied
  it resolves with the result of \<open>read\<close>.
\<close>

theorem question_answer:
  "(truthy w \<longrightarrow>
      fst (question text includeNewline (Some w) s)
        = Inr (cleanInput (Some (coerceChoice (host s) w)))
      \<and> stdin (snd (question text includeNewline (Some w) s)) = stdin s
      \<and> buf (snd (question text includeNewline (Some w) s)) = buf s)
   \<and> (truthy w \<and> LF \<notin> set (coerceChoice (host s) w) \<and> CR \<notin> set (coerceChoice (host s) w)
        \<longrightarrow> fst (question text includeNewline (Some w) s) = Inr (coerceChoice (host s) w))
   \<and> (\<forall>i. i \<noteq> 0 \<and> \<bar>i\<bar> \<le> 2 ^ 53 \<longrightarrow>
        fst (question text includeNewline (Some (Num (Finite (of_int i)))) s)
          = Inr (String_int i))
   \<and> fst (question text includeNewline (Some (Num PosInfinity)) s) = Inr ''Infinity''
   \<and> fst (question text includeNewline (Some (Num NegInfinity)) s) = Inr ''-Infinity''
   \<and> fst (question text includeNewline None s) = fst (read s)
   \<and> stdin (snd (question text includeNewline None s)) = stdin (snd (read s))"
proof -
  have r: "fst (question text includeNewline None s) = fst (read s)"
    "stdin (snd (question text includeNewline None s)) = stdin (snd (read s))"
    by (simp_all add: question_read) (rule read_out_irrelevant; simp)+
  have n: "fst (question text includeNewline (Some (Num (Finite (of_int i)))) s)
             = Inr (String_int i)"
    if "i \<noteq> 0" "\<bar>i\<bar> \<le> 2 ^ 53" for i
    using that
    by (simp add: question_supplied coerceChoice_def cleanInput_String_int Number_toString_int)
  have inf: "fst (question text includeNewline (Some (Num PosInfinity)) s) = Inr ''Infinity''"
    "fst (question text includeNewline (Some (Num NegInfinity)) s) = Inr ''-Infinity''"
    by (simp_all add: question_supplied coerceChoice_def Number_toString_special
        cleanInput_def LF_def CR_def)
  show ?thesis
    using r n inf by (simp add: question_supplied cleanInput_free)
qed

text \<open>
  \<open>question('Q', false, 'x')\<close> resolves to \<open>'x'\<close> and leaves the waiting input
  where it is.
\<close>

theorem question_answer_witness:
  "truthy (Str ''x'')
   \<and> fst (question ''Q'' (Some False) (Some (Str ''x'')) (InputLoop_new example_host [''y'']))
       = Inr ''x''
   \<and> stdin (snd (question ''Q'' (Some False) (Some (Str ''x''))
                   (InputLoop_new example_host [''y''])))
       = [''y'']
   \<and> fst (question ''Q'' (Some False) (Some (Num (Finite 7))) (InputLoop_new example_host [''y'']))
       = Inr ''7''"
proof -
  note qa = question_answer [of "Str ''x''" "''Q''" "Some False"
      "InputLoop_new example_host [''y'']"]
  have t: "truthy (Str ''x'')" by simp
  have x: "cleanInput (Some ''x'') = ''x''"
    by (simp add: cleanInput_def LF_def CR_def)
  from qa t x have a: "fst (question ''Q'' (Some False) (Some (Str ''x''))
                          (InputLoop_new example_host [''y''])) = Inr ''x''"
    "stdin (snd (question ''Q'' (Some False) (Some (Str ''x''))
                   (InputLoop_new example_host [''y'']))) = [''y'']"
    by (simp_all add: coerceChoice_def InputLoop_new_def)
  from qa have "\<forall>i. i \<noteq> 0 \<and> \<bar>i\<bar> \<le> 2 ^ 53 \<longrightarrow>
        fst (question ''Q'' (Some False) (Some (Num (Finite (of_int i))))
               (InputLoop_new example_host [''y'']))
          = Inr (String_int i)"
    by blast
  from this [rule_format, of 7]
  have "fst (question ''Q'' (Some False) (Some (Num (Finite 7)))
               (InputLoop_new example_host [''y''])) = Inr (String_int 7)"
    by simp
  moreover have "String_int 7 = ''7''" by code_simp
  ultimately show ?thesis using a t by simp
qed

text \<open>
  The supplied values 0, the empty string and NaN are falsy, so \<open>question\<close> reads
  standard input instead of resolving with them; and the supplied value \<open>a\<close>, line
  feed, \<open>b\<close> is resolved as \<open>ab\<close>, which is not its coerced form.
\<close>

theorem question_falsy_value_counterexample:
  "fst (question ''Q'' (Some False) (Some (Num (Finite 0)))
         (InputLoop_new example_host [''typed'' @ [LF]]))
     = Inr ''typed''
   \<and> stdin (snd (question ''Q'' (Some False) (Some (Num (Finite 0)))
                   (InputLoop_new example_host [''typed'' @ [LF]])))
       = []
   \<and> fst (question ''Q'' (Some False) (Some (Str [])) (InputLoop_new example_host []))
       = Inl EndOfInput
   \<and> fst (question ''Q'' (Some False) (Some (Num NaN)) (InputLoop_new example_host []))
       = Inl EndOfInput
   \<and> fst (question ''Q'' (Some False) (Some (Str (''a'' @ [LF] @ ''b'')))
          (InputLoop_new example_host []))
       = Inr ''ab''
   \<and> coerceChoice example_host (Str (''a'' @ [LF] @ ''b'')) \<noteq> ''ab''"
  by code_simp

subsection \<open>Reading a line\<close>

text \<open>
  C4, as amended. For every non-empty piece of at most 1024 bytes delivered by the read
  of standard input, \<open>read\<close> resolves with the decoded text of the piece without its
  first line feed and without its first carriage return, wherever the two occur, and
  consumes the piece. For an input line that the decoder returns as it is (well-formed
  UTF-8 with no byte-order mark in front, as every line of ASCII characters is), whose
  text before the terminator holds neither character and whose terminator is a line
  feed, a carriage return, the two in either order, or absent, this is the line with its
  terminator stripped and the rest unchanged.
\<close>

theorem read_strips_terminator:
  assumes "length (buf s) = 1024" and "stdin s = piece # rest"
    and "piece \<noteq> []" and "length piece \<le> 1024"
  shows "fst (read s) = Inr (replace CR [] (replace LF [] (TextDecoder_decode piece)))
       \<and> stdin (snd (read s)) = rest
       \<and> (ascii piece \<longrightarrow> TextDecoder_decode piece = piece)
       \<and> (\<forall>body eol. piece = body @ eol \<and> TextDecoder_decode piece = piece
              \<and> LF \<notin> set body \<and> CR \<notin> set body
              \<and> eol \<in> {[], [LF], [CR], [CR, LF], [LF, CR]}
            \<longrightarrow> fst (read s) = Inr body)"
proof -
  from assms(1) have b: "buf s \<noteq> []" by auto
  have res: "fst (read s) = Inr (cleanInput (Some (TextDecoder_decode piece)))"
    using read_data(1) [OF assms(2,3) b] assms(1,4) by simp
  have first: "fst (read s) = Inr (replace CR [] (replace LF [] (TextDecoder_decode piece)))"
    using res by (simp add: cleanInput_def)
  have rest: "stdin (snd (read s)) = rest"
    using read_data(2) [OF assms(2,3) b] assms(1,4) by simp
  have line: "fst (read s) = Inr body"
    if "piece = body @ eol" "TextDecoder_decode piece = piece"
      "LF \<notin> set body" "CR \<notin> set body"
      "eol \<in> {[], [LF], [CR], [CR, LF], [LF, CR]}" for body eol
    using res that cleanInput_line [of body eol] by simp
  from first rest line show ?thesis
    by (intro conjI allI impI) (blast intro: TextDecoder_decode_ascii)+
qed

text \<open>The input line \<open>hello\<close>, carriage return, line feed is read as \<open>hello\<close>.\<close>

theorem read_strips_terminator_witness:
  "length (buf (InputLoop_new example_host [''hello'' @ [CR, LF]])) = 1024
   \<and> TextDecoder_decode (''hello'' @ [CR, LF]) = ''hello'' @ [CR, LF]
   \<and> fst (read (InputLoop_new example_host [''hello'' @ [CR, LF]])) = Inr ''hello''"
proof -
  have a: "length (buf (InputLoop_new example_host [''hello'' @ [CR, LF]])) = 1024"
    by (simp add: InputLoop_new_def)
  have b: "stdin (InputLoop_new example_host [''hello'' @ [CR, LF]]) = (''hello'' @ [CR, LF]) # []"
    by (simp add: InputLoop_new_def)
  have c: "''hello'' @ [CR, LF] \<noteq> []" by simp
  have d: "length (''hello'' @ [CR, LF]) \<le> 1024" by simp
  have e: "LF \<notin> set ''hello''" "CR \<notin> set ''hello''"
    by (simp_all add: LF_def CR_def)
  have f: "ascii (''hello'' @ [CR, LF])"
    by (simp add: ascii_def byte_def LF_def CR_def)
  from read_strips_terminator [OF a b c d] f
  have g: "TextDecoder_decode (''hello'' @ [CR, LF]) = ''hello'' @ [CR, LF]"
    by blast
  from read_strips_terminator [OF a b c d] e g
  have "fst (read (InputLoop_new example_host [''hello'' @ [CR, LF]])) = Inr ''hello''"
    by blast
  with a g show ?thesis by simp
qed

text \<open>
  A carriage return inside the line is removed as well: the line \<open>a\<close>, carriage
  return, \<open>b\<close>, line feed is read as \<open>ab\<close>. And of two trailing carriage returns only
  one is removed.
\<close>

theorem read_interior_cr_counterexample:
  "fst (read (InputLoop_new example_host [''a'' @ [CR] @ ''b'' @ [LF]])) = Inr ''ab''
   \<and> ''ab'' \<noteq> ''a'' @ [CR] @ ''b''
   \<and> fst (read (InputLoop_new example_host [''hello'' @ [CR, CR, LF]])) = Inr (''hello'' @ [CR])"
  by code_simp

subsection \<open>Repeating the last prompt\<close>

text \<open>
  C5. In every state of the loop object (every state that satisfies the invariant, which
  the fresh object does and every operation keeps): when no prompt was ever recorded
  \<open>repeat(value)\<close> returns nothing and changes nothing; when the last recorded prompt
  is a choose prompt it is the call of \<open>choose\<close> with the recorded option list and
  \<open>lastOptionClose\<close> flag and with \<open>value\<close> as the choice; when it is a question it
  is the call of \<open>question\<close> with the recorded text and newline flag and with
  \<open>value\<close>, so that with no value it reads standard input. The recorded prompt is
  that of the call made before: the options and flag of a \<open>choose\<close> that resolved, the
  text and newline flag of a \<open>question\<close>.
\<close>

theorem repeat_replays:
  assumes "InputLoop_inv s"
  shows "(case h_action (history s) of
            None \<Rightarrow> repeat v s = (Inr Undefined, s)
          | Some CHOOSE \<Rightarrow>
              (\<exists>opts. h_argument (history s) = Some (Options opts)
                 \<and> repeat v s = settle Selected
                     (choose_prompt opts
                        (no_preferences
                           \<lparr>lastOptionClose := h_lastOptionClose (history s), choice := v\<rparr>) s))
          | Some QUESTION \<Rightarrow>
              (\<exists>t. h_argument (history s) = Some (Text t)
                 \<and> repeat v s = settle Answer (question t (h_includeNewline (history s)) v s)
                 \<and> (v = None \<longrightarrow>
                      fst (repeat v s) = map_sum id Answer (fst (read s))
                      \<and> stdin (snd (repeat v s)) = stdin (snd (read s)))))
       \<and> (\<forall>options preferences s0 r.
            choose_prompt options preferences s0 = (Inr r, s) \<longrightarrow>
            repeat v s = settle Selected
              (choose_prompt options
                 (no_preferences
                    \<lparr>lastOptionClose := Some (nullish (lastOptionClose preferences) False),
                     choice := v\<rparr>) s))
       \<and> (\<forall>t includeNewline w s0.
            snd (question t includeNewline w s0) = s \<longrightarrow>
            repeat v s = settle Answer (question t (Some (nullish includeNewline True)) v s))"
proof (intro conjI allI impI)
  from assms show "case h_action (history s) of
            None \<Rightarrow> repeat v s = (Inr Undefined, s)
          | Some CHOOSE \<Rightarrow>
              (\<exists>opts. h_argument (history s) = Some (Options opts)
                 \<and> repeat v s = settle Selected
                     (choose_prompt opts
                        (no_preferences
                           \<lparr>lastOptionClose := h_lastOptionClose (history s), choice := v\<rparr>) s))
          | Some QUESTION \<Rightarrow>
              (\<exists>t. h_argument (history s) = Some (Text t)
                 \<and> repeat v s = settle Answer (question t (h_includeNewline (history s)) v s)
                 \<and> (v = None \<longrightarrow>
                      fst (repeat v s) = map_sum id Answer (fst (read s))
                      \<and> stdin (snd (repeat v s)) = stdin (snd (read s))))"
  proof (cases rule: repeat_cases [of s v])
    case nothing
    then show ?thesis by simp
  next
    case (choose opts)
    then show ?thesis by simp
  next
    case (question t)
    have "fst (question t nl None s) = fst (read s)"
      "stdin (snd (question t nl None s)) = stdin (snd (read s))" for nl
      by (simp_all add: question_read) (rule read_out_irrelevant; simp)+
    with question show ?thesis
      by (auto split: sum.splits)
  qed
next
  fix options preferences s0 r
  assume "choose_prompt options preferences s0 = (Inr r, s)"
  then show "repeat v s = settle Selected
              (choose_prompt options
                 (no_preferences
                    \<lparr>lastOptionClose := Some (nullish (lastOptionClose preferences) False),
                     choice := v\<rparr>) s)"
    by (rule repeat_after_choose)
next
  fix t includeNewline w s0
  assume "snd (question t includeNewline w s0) = s"
  then show "repeat v s = settle Answer (question t (Some (nullish includeNewline True)) v s)"
    by (rule repeat_after_question)
qed

text \<open>
  \<open>repeat()\<close> right after \<open>choose(['A', 'B'], {choice: 0})\<close> writes the same two
  options again and reads the waiting line \<open>1\<close> as the answer.
\<close>

theorem repeat_replays_witness:
  "InputLoop_inv (snd (choose_prompt [''A'', ''B''] (no_preferences\<lparr>choice := Some (Num (Finite 0))\<rparr>)
                         (InputLoop_new example_host [''1'' @ [LF]])))
   \<and> fst (repeat None
            (snd (choose_prompt [''A'', ''B''] (no_preferences\<lparr>choice := Some (Num (Finite 0))\<rparr>)
                    (InputLoop_new example_host [''1'' @ [LF]]))))
       = Inr (Selected [False, True])
   \<and> stdin (snd (repeat None
            (snd (choose_prompt [''A'', ''B''] (no_preferences\<lparr>choice := Some (Num (Finite 0))\<rparr>)
                    (InputLoop_new example_host [''1'' @ [LF]])))))
       = []
   \<and> out (snd (repeat None
            (snd (choose_prompt [''A'', ''B''] (no_preferences\<lparr>choice := Some (Num (Finite 0))\<rparr>)
                    (InputLoop_new example_host [''1'' @ [LF]])))))
       = [Newline, Print ''[0] A'' (Some True), Print ''[1] B'' (Some True),
          Newline, Print ''[0] A'' (Some True), Print ''[1] B'' (Some True)]"
proof -
  let ?p = "no_preferences\<lparr>choice := Some (Num (Finite 0))\<rparr>"
  let ?s = "snd (choose_prompt [''A'', ''B''] ?p (InputLoop_new example_host [''1'' @ [LF]]))"
  let ?q = "no_preferences\<lparr>lastOptionClose := Some (nullish (lastOptionClose ?p) False),
              choice := None\<rparr>"
  have inv: "InputLoop_inv ?s"
    by (rule inv_choose [OF inv_new])
  have "fst (choose_prompt [''A'', ''B''] ?p (InputLoop_new example_host [''1'' @ [LF]]))
          = Inr [True, False]"
    by code_simp
  then have first: "choose_prompt [''A'', ''B''] ?p (InputLoop_new example_host [''1'' @ [LF]])
                      = (Inr [True, False], ?s)"
    by (simp add: prod_eq_iff)
  from repeat_replays [OF inv, of None] first
  have again: "repeat None ?s = settle Selected (choose_prompt [''A'', ''B''] ?q ?s)"
    by blast
  have "fst (settle Selected (choose_prompt [''A'', ''B''] ?q ?s)) = Inr (Selected [False, True])"
    "stdin (snd (settle Selected (choose_prompt [''A'', ''B''] ?q ?s))) = []"
    "out (snd (settle Selected (choose_prompt [''A'', ''B''] ?q ?s)))
       = [Newline, Print ''[0] A'' (Some True), Print ''[1] B'' (Some True),
          Newline, Print ''[0] A'' (Some True), Print ''[1] B'' (Some True)]"
    by code_simp+
  with again inv show ?thesis by simp
qed

subsection \<open>Failures\<close>

text \<open>
  C6, as amended. \<open>read\<close> rejects if and only if the read of standard input yields no
  data (the stream is closed, or zero bytes were read); when data is available it
  resolves with the cleaned text. End of input is the only failure of \<open>read\<close> and of
  \<open>question\<close>, and of \<open>choose\<close> whenever its menu can be built on the host. When the
  menu cannot be built, \<open>choose\<close> fails with a range error, whether or not input is
  waiting: so it does, with no inline separator, on an inline spacing that is infinite,
  is -1 or below, or is above the greatest length of a string. \<open>repeat\<close>, which calls
  \<open>choose\<close>, fails with the end of input or with a range error.
\<close>

theorem failure_kinds:
  assumes "InputLoop_inv s"
  shows "((\<exists>e. fst (read s) = Inl e) \<longleftrightarrow> no_data s)
       \<and> (\<forall>piece rest. stdin s = piece # rest \<and> piece \<noteq> [] \<longrightarrow>
            fst (read s) = Inr (cleanInput (Some (TextDecoder_decode (take 1024 piece)))))
       \<and> (\<forall>e. fst (read s) = Inl e \<longrightarrow> e = EndOfInput)
       \<and> (\<forall>e. fst (question text includeNewline v s) = Inl e \<longrightarrow> e = EndOfInput)
       \<and> (\<forall>e. fst (choose_prompt options preferences s) = Inl e \<longrightarrow>
            (if menu_ok (host s) preferences options then e = EndOfInput
             else e = RangeError))
       \<and> (\<not> menu_ok (host s) preferences options \<longrightarrow>
            fst (choose_prompt options preferences s) = Inl RangeError)
       \<and> (\<not> truthy_string (inlineSeparator preferences)
            \<and> (inlineSpacing preferences = Some PosInfinity
                 \<or> inlineSpacing preferences = Some NegInfinity
                 \<or> (\<exists>q. inlineSpacing preferences = Some (Finite q)
                       \<and> (q \<le> - 1 \<or> of_int (String_kMaxLength (host s)) + 1 \<le> q)))
            \<longrightarrow> fst (choose_prompt options preferences s) = Inl RangeError)
       \<and> (\<forall>e. fst (repeat v s) = Inl e \<longrightarrow> e = EndOfInput \<or> e = RangeError)"
proof -
  from assms have len: "length (buf s) = 1024" by (simp add: InputLoop_inv_def)
  then have b: "buf s \<noteq> []" by auto
  have data: "fst (read s) = Inr (cleanInput (Some (TextDecoder_decode (take 1024 piece))))"
    if "stdin s = piece # rest" "piece \<noteq> []" for piece rest
    using read_data(1) [OF that b] len by simp
  have ok: "e = EndOfInput" if "fst (choose_prompt options preferences s) = Inl e"
    "menu_ok (host s) preferences options" for e
    using choose_prompt_error [OF that(1)] that(2) by simp
  have bad: "e = RangeError" if "fst (choose_prompt options preferences s) = Inl e"
    "\<not> menu_ok (host s) preferences options" for e
    using choose_prompt_error [OF that(1)] that(2) by simp
  have spacing: "fst (choose_prompt options preferences s) = Inl RangeError"
    if "\<not> truthy_string (inlineSeparator preferences)"
      "inlineSpacing preferences = Some PosInfinity
         \<or> inlineSpacing preferences = Some NegInfinity
         \<or> (\<exists>q. inlineSpacing preferences = Some (Finite q)
               \<and> (q \<le> - 1 \<or> of_int (String_kMaxLength (host s)) + 1 \<le> q))"
    using choose_prompt_range(1) [OF spacing_not_ok [OF that]] .
  show ?thesis
    using read_fails_iff [OF b] read_error [of s] question_error [of "text" includeNewline v s]
      repeat_error [OF assms, of v] data ok bad spacing
    by (simp add: choose_prompt_range(1))
qed

text \<open>
  On the closed stream \<open>read\<close> rejects; on the waiting line \<open>0\<close> it resolves; and
  \<open>choose\<close> with an inline spacing of \<open>2^30\<close> fails with a range error.
\<close>

theorem failure_kinds_witness:
  "InputLoop_inv (InputLoop_new example_host [])
   \<and> fst (read (InputLoop_new example_host [])) = Inl EndOfInput
   \<and> fst (read (InputLoop_new example_host [''0'' @ [LF]])) = Inr ''0''
   \<and> fst (choose_prompt [''A''] (no_preferences\<lparr>inlineSpacing := Some (Finite (2 ^ 30))\<rparr>)
          (InputLoop_new example_host [''0'' @ [LF]]))
       = Inl RangeError"
proof -
  have a: "no_data (InputLoop_new example_host [])"
    by (simp add: no_data_def InputLoop_new_def)
  have b: "stdin (InputLoop_new example_host [''0'' @ [LF]]) = (''0'' @ [LF]) # []"
    by (simp add: InputLoop_new_def)
  have c: "cleanInput (Some (TextDecoder_decode (take 1024 (''0'' @ [LF])))) = ''0''"
    by code_simp
  have d: "\<not> truthy_string (inlineSeparator (no_preferences\<lparr>inlineSpacing := Some (Finite (2 ^ 30))\<rparr>))"
    "inlineSpacing (no_preferences\<lparr>inlineSpacing := Some (Finite (2 ^ 30))\<rparr>) = Some (Finite (2 ^ 30))"
    "of_int (String_kMaxLength (host (InputLoop_new example_host [''0'' @ [LF]]))) + 1
       \<le> (2 ^ 30 :: rat)"
    by (simp_all add: no_preferences_def truthy_string_def InputLoop_new_def example_host_def)
  from failure_kinds [OF inv_new [of example_host "[]"]] a
  have "fst (read (InputLoop_new example_host [])) = Inl EndOfInput" by blast
  moreover from failure_kinds [OF inv_new [of example_host "[''0'' @ [LF]]"]] b c
  have "fst (read (InputLoop_new example_host [''0'' @ [LF]])) = Inr ''0''" by simp
  moreover from failure_kinds [OF inv_new [of example_host "[''0'' @ [LF]]"],
      where preferences = "no_preferences\<lparr>inlineSpacing := Some (Finite (2 ^ 30))\<rparr>"
        and options = "[''A'']"] d
  have "fst (choose_prompt [''A''] (no_preferences\<lparr>inlineSpacing := Some (Finite (2 ^ 30))\<rparr>)
          (InputLoop_new example_host [''0'' @ [LF]]))
       = Inl RangeError" by blast
  ultimately show ?thesis using inv_new by simp
qed

text \<open>
  A failure that is not the end of input: \<open>choose\<close> with an inline spacing of -2,
  while a line is waiting on standard input.
\<close>

theorem failure_kinds_counterexample:
  "fst (choose_prompt [''A''] (no_preferences\<lparr>inlineSpacing := Some (Finite (- 2))\<rparr>)
         (InputLoop_new example_host [''0'' @ [LF]]))
     = Inl RangeError
   \<and> RangeError \<noteq> EndOfInput
   \<and> \<not> no_data (InputLoop_new example_host [''0'' @ [LF]])"
  by code_simp

subsection \<open>The done flag\<close>

text \<open>
  C7. The done flag is monotonic: none of \<open>choose\<close>, \<open>question\<close>, \<open>repeat\<close>,
  \<open>read\<close> and \<open>close\<close> changes it from true to false. \<open>close\<close> always sets it to
  true and is idempotent: closing twice gives the same state as closing once.
\<close>

theorem done_monotonic:
  "(done_flag s \<longrightarrow>
      done_flag (snd (choose_prompt options preferences s))
      \<and> done_flag (snd (question text includeNewline v s))
      \<and> done_flag (snd (repeat v s))
      \<and> done_flag (snd (read s))
      \<and> done_flag (close s))
   \<and> done_flag (close s)
   \<and> close (close s) = close s"
proof -
  have "done_flag (snd (repeat v s))" if "done_flag s"
    using that
    by (auto simp: repeat_def choose_prompt_done question_frame
        split: option.splits prompt_argument.splits)
  then show ?thesis
    by (simp add: choose_prompt_done question_frame) (simp add: close_def)
qed

text \<open>Every operation on a closed loop leaves it closed.\<close>

theorem done_monotonic_witness:
  "done_flag (close (InputLoop_new example_host [''0'']))
   \<and> done_flag (snd (choose_prompt [''A'', ''B''] no_preferences
                       (close (InputLoop_new example_host [''0'']))))
   \<and> done_flag (snd (question ''Q'' None None (close (InputLoop_new example_host [''0'']))))
   \<and> done_flag (snd (repeat None (close (InputLoop_new example_host [''0'']))))
   \<and> done_flag (snd (read (close (InputLoop_new example_host [''0'']))))
   \<and> done_flag (close (close (InputLoop_new example_host [''0''])))"
proof -
  have h: "done_flag (close (InputLoop_new example_host [''0'']))"
    by (simp add: close_def)
  from done_monotonic [of "close (InputLoop_new example_host [''0''])" "[''A'', ''B'']"
      no_preferences "''Q''" None None] h
  show ?thesis by simp
qed

subsection \<open>A supplied choice\<close>

text \<open>
  C8, as amended. In every call of \<open>choose\<close> in which a choice is supplied, the number
  0 and the empty string included, standard input is not read: the stream and the buffer
  are as before. When the menu can be built on the host, the answer is the choice coerced
  to its string form, without its first line feed and its first carriage return: the
  string form itself when it holds neither. Only a call with no choice reads standard
  input, and its answer is what \<open>read\<close> resolves with.
\<close>

theorem choose_supplied_choice:
  assumes "choice preferences = Some c"
  shows "stdin (snd (choose_prompt options preferences s)) = stdin s
       \<and> buf (snd (choose_prompt options preferences s)) = buf s
       \<and> (menu_ok (host s) preferences options \<longrightarrow>
            fst (choose_prompt options preferences s)
              = Inr (map (\<lambda>j. cleanInput (Some (coerceChoice (host s) c)) = String_nat j)
                      [0..<length options])
            \<and> done_flag (snd (choose_prompt options preferences s))
              = (done_flag s \<or> (truthy_bool (lastOptionClose preferences)
                   \<and> cleanInput (Some (coerceChoice (host s) c))
                       = String_int (int (length options) - 1))))
       \<and> (LF \<notin> set (coerceChoice (host s) c) \<and> CR \<notin> set (coerceChoice (host s) c) \<longrightarrow>
            cleanInput (Some (coerceChoice (host s) c)) = coerceChoice (host s) c)
       \<and> (\<forall>q. choice q = None \<and> menu_ok (host s) q options \<longrightarrow>
            stdin (snd (choose_prompt options q s)) = stdin (snd (read s))
            \<and> (\<forall>e. fst (read s) = Inl e \<longrightarrow> fst (choose_prompt options q s) = Inl e)
            \<and> (\<forall>result. fst (read s) = Inr result \<longrightarrow>
                 fst (choose_prompt options q s)
                   = Inr (map (\<lambda>j. result = String_nat j) [0..<length options])))"
proof -
  have supplied: "fst (choose_prompt options preferences s)
              = Inr (map (\<lambda>j. cleanInput (Some (coerceChoice (host s) c)) = String_nat j)
                      [0..<length options])" if "menu_ok (host s) preferences options"
    using choose_prompt_supplied [OF that assms] .
  have interactive: "(\<forall>e. fst (read s) = Inl e \<longrightarrow> fst (choose_prompt options q s) = Inl e)
            \<and> (\<forall>result. fst (read s) = Inr result \<longrightarrow>
                 fst (choose_prompt options q s)
                   = Inr (map (\<lambda>j. result = String_nat j) [0..<length options]))"
    if "choice q = None" "menu_ok (host s) q options" for q
    using that by (cases rule: choose_prompt_cases [of s q options]) simp_all
  show ?thesis
    using supplied interactive assms
    by (simp add: choose_prompt_stdin choose_prompt_done obtain_result_supplied
        cleanInput_free)
qed

text \<open>The supplied choice 0 selects the first option and leaves the waiting line unread.\<close>

theorem choose_supplied_choice_witness:
  "stdin (snd (choose_prompt [''A'', ''B''] (no_preferences\<lparr>choice := Some (Num (Finite 0))\<rparr>)
            (InputLoop_new example_host [''1'' @ [LF]])))
     = [''1'' @ [LF]]
   \<and> fst (choose_prompt [''A'', ''B''] (no_preferences\<lparr>choice := Some (Num (Finite 0))\<rparr>)
          (InputLoop_new example_host [''1'' @ [LF]]))
       = Inr [True, False]"
proof -
  have a: "choice (no_preferences\<lparr>choice := Some (Num (Finite 0))\<rparr>) = Some (Num (Finite 0))"
    by simp
  have b: "menu_ok (host (InputLoop_new example_host [''1'' @ [LF]]))
             (no_preferences\<lparr>choice := Some (Num (Finite 0))\<rparr>) [''A'', ''B'']"
    by code_simp
  have c: "cleanInput (Some (coerceChoice (host (InputLoop_new example_host [''1'' @ [LF]]))
             (Num (Finite 0)))) = String_nat 0"
    using Number_toString_nat [of 0] by (simp add: coerceChoice_def cleanInput_String_nat)
  from choose_supplied_choice [OF a, of "[''A'', ''B'']" "InputLoop_new example_host [''1'' @ [LF]]"]
    b c
  show ?thesis by (simp add: InputLoop_new_def String_nat_inj)
qed

text \<open>
  The supplied choice \<open>1\<close> followed by a line feed selects the second option,
  which its string form, taken as the answer, would not.
\<close>

theorem choose_cleaned_choice_counterexample:
  "fst (choose_prompt [''A'', ''B''] (no_preferences\<lparr>choice := Some (Str (''1'' @ [LF]))\<rparr>)
         (InputLoop_new example_host []))
     = Inr [False, True]
   \<and> map (\<lambda>j. coerceChoice example_host (Str (''1'' @ [LF])) = String_nat j) [0..<2]
       = [False, False]"
  by code_simp

subsection \<open>A failed read inside choose\<close>

text \<open>
  C9. When no choice is supplied and the read of standard input yields no data,
  \<open>choose\<close> fails and leaves the state of the object as it was: the history record,
  the done flag and the buffer are unchanged. It fails with the end of input whenever
  it comes to read, which is whenever its menu can be built.
\<close>

theorem choose_failed_read_keeps_state:
  assumes "choice preferences = None" and "no_data s"
  shows "(menu_ok (host s) preferences options \<longrightarrow>
            fst (choose_prompt options preferences s) = Inl EndOfInput)
       \<and> (\<exists>e. fst (choose_prompt options preferences s) = Inl e)
       \<and> history (snd (choose_prompt options preferences s)) = history s
       \<and> done_flag (snd (choose_prompt options preferences s)) = done_flag s
       \<and> buf (snd (choose_prompt options preferences s)) = buf s"
proof -
  from assms(2) have failed: "fst (read s) = Inl EndOfInput"
    by (rule read_no_data)
  then have none: "fst (obtain_result preferences s) = Inl EndOfInput"
    by (simp add: obtain_result_read assms(1))
  have fails: "fst (choose_prompt options preferences s)
                 = Inl (if menu_ok (host s) preferences options then EndOfInput else RangeError)"
    using failed assms(1)
    by (cases rule: choose_prompt_cases [of s preferences options]) simp_all
  then show ?thesis
    using failed none assms(1)
    by (simp add: choose_prompt_history choose_prompt_done choose_prompt_stdin(2)
        read_failed_buf)
qed

text \<open>A menu shown on the closed stream of a fresh object.\<close>

theorem choose_failed_read_keeps_state_witness:
  "choice no_preferences = None \<and> no_data (InputLoop_new example_host [])
   \<and> menu_ok (host (InputLoop_new example_host [])) no_preferences [''A'', ''B'']
   \<and> fst (choose_prompt [''A'', ''B''] no_preferences (InputLoop_new example_host []))
       = Inl EndOfInput
   \<and> history (snd (choose_prompt [''A'', ''B''] no_preferences (InputLoop_new example_host [])))
       = History_new
   \<and> \<not> done_flag (snd (choose_prompt [''A'', ''B''] no_preferences
                         (InputLoop_new example_host [])))"
proof -
  have a: "choice no_preferences = None"
    by (simp add: no_preferences_def)
  have b: "menu_ok (host (InputLoop_new example_host [])) no_preferences [''A'', ''B'']"
    by code_simp
  have c: "no_data (InputLoop_new example_host [])"
    by (simp add: no_data_def InputLoop_new_def)
  from choose_failed_read_keeps_state [OF a c, of "[''A'', ''B'']"] a b c
  show ?thesis by (simp add: InputLoop_new_def)
qed

subsection \<open>At most one selection\<close>

text \<open>
  C10. Whatever the options and the answer, read or supplied, a boolean sequence that
  \<open>choose\<close> resolves to holds at most one true entry: two positions that are both
  true are the same position.
\<close>

theorem choose_at_most_one:
  assumes "fst (choose_prompt options preferences s) = Inr r"
  shows "(\<forall>i j. i < length r \<and> j < length r \<and> r ! i \<and> r ! j \<longrightarrow> i = j)
       \<and> length (filter (\<lambda>b. b) r) \<le> 1"
proof -
  from choose_prompt_shape(2) [OF assms] obtain result where
    r: "r = map (\<lambda>j. result = String_nat j) [0..<length options]"
    by blast
  have one: "i = j" if "i < length r" "j < length r" "r ! i" "r ! j" for i j
    using that r by (simp add: String_nat_inj [symmetric])
  have "card {i. i < length r \<and> r ! i} \<le> Suc 0"
    using one by (subst card_le_Suc0_iff_eq) auto
  then have "length (filter (\<lambda>b. b) r) \<le> 1"
    by (simp add: length_filter_conv_card)
  with one show ?thesis by blast
qed

text \<open>Two options and the supplied choice 1: one entry is true.\<close>

theorem choose_at_most_one_witness:
  "fst (choose_prompt [''A'', ''B''] (no_preferences\<lparr>choice := Some (Num (Finite 1))\<rparr>)
         (InputLoop_new example_host []))
     = Inr [False, True]
   \<and> length (filter (\<lambda>b. b) [False, True]) \<le> 1"
proof -
  have h: "fst (choose_prompt [''A'', ''B''] (no_preferences\<lparr>choice := Some (Num (Finite 1))\<rparr>)
             (InputLoop_new example_host [])) = Inr [False, True]"
    by code_simp
  from choose_at_most_one [OF h] h show ?thesis by simp
qed

end
